theory Spec2Isabelle
  imports Main "HOL-Library.List_Lexorder" "HOL-Library.Char_ord"
begin

section \<open>JavaScript strings\<close>

text \<open>
  A JavaScript string is modelled as a \<open>string\<close> (a list of \<open>char\<close>), one \<open>char\<close> per
  code unit. HOL characters are 8 bits wide, so the model covers the code units
  0..255 (ASCII and Latin-1). Within that range the white space of \<open>String.prototype.trim\<close>
  and of the regular-expression class \<open>\s\<close> is TAB, LF, VT, FF, CR, SPACE and NBSP, the line
  terminators that \<open>.\<close> refuses are LF and CR, and \<open>toLowerCase\<close> moves A-Z and the
  Latin-1 capitals 0xC0-0xDE (without the multiplication sign 0xD7) up by 32.
\<close>

definition is_space :: "char \<Rightarrow> bool" where
  "is_space c = (let n = (of_char c :: nat) in (9 \<le> n \<and> n \<le> 13) \<or> n = 32 \<or> n = 160)"

definition is_line_terminator :: "char \<Rightarrow> bool" where
  "is_line_terminator c = (c = CHR 0x0A \<or> c = CHR 0x0D)"

definition lower_char :: "char \<Rightarrow> char" where
  "lower_char c = (let n = (of_char c :: nat) in
     if (65 \<le> n \<and> n \<le> 90) \<or> (192 \<le> n \<and> n \<le> 214) \<or> (216 \<le> n \<and> n \<le> 222)
     then char_of (n + 32) else c)"

definition toLowerCase :: "string \<Rightarrow> string" where
  "toLowerCase s = map lower_char s"

definition trim :: "string \<Rightarrow> string" where
  "trim s = rev (dropWhile is_space (rev (dropWhile is_space s)))"

definition startsWith :: "string \<Rightarrow> string \<Rightarrow> bool" where
  "startsWith s p = (take (length p) s = p)"

definition endsWith :: "string \<Rightarrow> string \<Rightarrow> bool" where
  "endsWith s p = (length p \<le> length s \<and> drop (length s - length p) s = p)"

text \<open>\<open>s.includes(c)\<close> for a one-character needle.\<close>

definition includes_char :: "string \<Rightarrow> char \<Rightarrow> bool" where
  "includes_char s c = (c \<in> set s)"

text \<open>\<open>s.split(d)\<close> for a one-character separator: never the empty list.\<close>

fun split_on :: "char \<Rightarrow> string \<Rightarrow> string list" where
  "split_on d [] = [[]]"
| "split_on d (c # cs) =
     (if c = d then [] # split_on d cs
      else (case split_on d cs of [] \<Rightarrow> [[c]] | r # rs \<Rightarrow> (c # r) # rs))"

text \<open>\<open>parts.join(sep)\<close>.\<close>

fun join_with :: "string \<Rightarrow> string list \<Rightarrow> string" where
  "join_with sep [] = []"
| "join_with sep [x] = x"
| "join_with sep (x # y # ys) = x @ sep @ join_with sep (y # ys)"

subsection \<open>Splitting on the blank pattern\<close>

text \<open>
  \<open>find_close cs\<close> is the non-greedy tail \<open>.*?\]\<close> of the pattern \<open>\[.*?\]\<close>, tried right
  after an opening bracket: the shortest run of characters that are not line terminators,
  then a closing bracket. It returns the run and what follows the bracket.
\<close>

fun find_close :: "string \<Rightarrow> (string \<times> string) option" where
  "find_close [] = None"
| "find_close (c # cs) =
     (if c = CHR '']'' then Some ([], cs)
      else if is_line_terminator c then None
      else (case find_close cs of None \<Rightarrow> None | Some (inner, rest) \<Rightarrow> Some (c # inner, rest)))"

lemma find_close_length: "find_close cs = Some (inner, rest) \<Longrightarrow> length rest < length cs"
  by (induction cs arbitrary: inner rest) (auto split: if_splits option.splits)

text \<open>
  \<open>text.split(/(\[.*?\])/g)\<close>: the literal segments and the captured matches alternate,
  starting and ending with a literal segment (possibly empty). \<open>acc\<close> holds the current
  literal segment, reversed.
\<close>

function split_blanks_go :: "string \<Rightarrow> string \<Rightarrow> string list" where
  "split_blanks_go acc [] = [rev acc]"
| "split_blanks_go acc (c # cs) =
     (if c = CHR ''[''
      then (case find_close cs of
              Some (inner, rest) \<Rightarrow> rev acc # (CHR ''['' # inner @ '']'') # split_blanks_go [] rest
            | None \<Rightarrow> split_blanks_go (c # acc) cs)
      else split_blanks_go (c # acc) cs)"
  by pat_completeness auto
termination
  by (relation "measure (\<lambda>(acc, s). length s)") (auto dest: find_close_length)

definition split_blanks :: "string \<Rightarrow> string list" where
  "split_blanks s = split_blanks_go [] s"

text \<open>The test \<open>part.startsWith('[') && part.endsWith(']')\<close> used by every consumer.\<close>

definition is_blank_token :: "string \<Rightarrow> bool" where
  "is_blank_token p = (startsWith p ''['' \<and> endsWith p '']'')"

section \<open>The bracket-syntax parser of useBlanks\<close>

record BlankData =
  answer :: string
  localOptions :: "string list"
  hint :: "string option"

text \<open>The loop \<open>for (let i = 1; i < items.length; i++)\<close> over the segments after the answer.\<close>

fun collect_items :: "string list \<Rightarrow> string option \<Rightarrow> string list \<Rightarrow> string option \<times> string list" where
  "collect_items [] h opts = (h, opts)"
| "collect_items (it # its) h opts =
     (if startsWith it ''hint:'' then collect_items its (Some (drop 5 it)) opts
      else collect_items its h (opts @ [it]))"

text \<open>\<open>p.slice(1, -1)\<close>.\<close>

definition slice_1_m1 :: "string \<Rightarrow> string" where
  "slice_1_m1 p = butlast (tl p)"

definition parse_blank :: "string \<Rightarrow> BlankData" where
  "parse_blank p =
     (let content = slice_1_m1 p;
          items = split_on CHR ''|'' content
      in case items of
           [] \<Rightarrow> \<lparr>answer = [], localOptions = [], hint = None\<rparr>
         | a # rest \<Rightarrow>
             (case collect_items rest None [] of
                (h, opts) \<Rightarrow> \<lparr>answer = a, localOptions = opts, hint = h\<rparr>))"

definition parse_text :: "string \<Rightarrow> BlankData list" where
  "parse_text txt = map parse_blank (filter is_blank_token (split_blanks txt))"

text \<open>
  The parser as the specification words it: segment 0 is the answer, the last segment
  with the prefix \<open>hint:\<close> gives the hint with the prefix stripped, the other segments are
  the local options in order.
\<close>

definition spec_blank_of_segments :: "string list \<Rightarrow> BlankData" where
  "spec_blank_of_segments segs =
     \<lparr>answer = hd segs,
      localOptions = filter (\<lambda>s. \<not> startsWith s ''hint:'') (tl segs),
      hint = (case filter (\<lambda>s. startsWith s ''hint:'') (tl segs) of
                [] \<Rightarrow> None
              | h # hs \<Rightarrow> Some (drop 5 (last (h # hs))))\<rparr>"

section \<open>JavaScript arrays and the state of useBlanks\<close>

text \<open>
  A slot of a JavaScript array holds a value, holds \<open>undefined\<close>, or is a hole (an index
  below \<open>length\<close> that was never written). Reading a hole or an index out of range gives
  \<open>undefined\<close>; the spread \<open>[...prev]\<close> turns holes into \<open>undefined\<close>; the assignment
  \<open>next[index] = v\<close> beyond the end extends the array and leaves holes in between.
\<close>

datatype 'a cell = Hole | Undefined | Val 'a

type_synonym 'a jsarray = "'a cell list"

text \<open>\<open>xs[i]\<close>, with \<open>None\<close> for \<open>undefined\<close>.\<close>

definition js_get :: "'a jsarray \<Rightarrow> nat \<Rightarrow> 'a option" where
  "js_get xs i =
     (if i < length xs then (case xs ! i of Val v \<Rightarrow> Some v | Undefined \<Rightarrow> None | Hole \<Rightarrow> None)
      else None)"

definition js_spread :: "'a jsarray \<Rightarrow> 'a jsarray" where
  "js_spread xs = map (\<lambda>c. case c of Hole \<Rightarrow> Undefined | Undefined \<Rightarrow> Undefined | Val v \<Rightarrow> Val v) xs"

definition js_set :: "'a jsarray \<Rightarrow> nat \<Rightarrow> 'a \<Rightarrow> 'a jsarray" where
  "js_set xs i v =
     (if i < length xs then xs[i := Val v]
      else xs @ replicate (i - length xs) Hole @ [Val v])"

text \<open>\<open>new Array(n).fill(v)\<close>.\<close>

definition array_fill :: "nat \<Rightarrow> 'a \<Rightarrow> 'a jsarray" where
  "array_fill n v = replicate n (Val v)"

text \<open>The truth value of a flag read from an array: \<open>undefined\<close> is falsy.\<close>

definition truthy_flag :: "bool option \<Rightarrow> bool" where
  "truthy_flag r = (case r of None \<Rightarrow> False | Some b \<Rightarrow> b)"

record blanks_state =
  inputs :: "string jsarray"
  touched :: "bool jsarray"
  blurred :: "bool jsarray"
  submitted :: bool
  showAnswers :: bool
  showHintFor :: "bool jsarray"

text \<open>The initial values of the six \<open>useState\<close> calls, for \<open>n = answers.length\<close> at mount.\<close>

definition init_state :: "nat \<Rightarrow> blanks_state" where
  "init_state n =
     \<lparr>inputs = array_fill n [], touched = array_fill n False, blurred = array_fill n False,
      submitted = False, showAnswers = False, showHintFor = array_fill n False\<rparr>"

definition handleInputChange :: "nat \<Rightarrow> string \<Rightarrow> blanks_state \<Rightarrow> blanks_state" where
  "handleInputChange index v st =
     st\<lparr>inputs := js_set (js_spread (inputs st)) index v,
        touched := js_set (js_spread (touched st)) index True,
        blurred := js_set (js_spread (blurred st)) index False\<rparr>"

definition handleBlur :: "nat \<Rightarrow> blanks_state \<Rightarrow> blanks_state" where
  "handleBlur index st = st\<lparr>blurred := js_set (js_spread (blurred st)) index True\<rparr>"

definition checkAnswers :: "blanks_state \<Rightarrow> blanks_state" where
  "checkAnswers st = st\<lparr>submitted := True, showAnswers := False\<rparr>"

text \<open>\<open>reset\<close> closes over \<open>answers.length\<close>, here \<open>n\<close>.\<close>

definition reset :: "nat \<Rightarrow> blanks_state \<Rightarrow> blanks_state" where
  "reset n st =
     st\<lparr>submitted := False, showAnswers := False,
        inputs := array_fill n [], touched := array_fill n False\<rparr>"

definition toggleHint :: "nat \<Rightarrow> blanks_state \<Rightarrow> blanks_state" where
  "toggleHint index st =
     st\<lparr>showHintFor :=
          js_set (js_spread (showHintFor st)) index
            (\<not> truthy_flag (js_get (js_spread (showHintFor st)) index))\<rparr>"

definition showAllAnswers :: "string list \<Rightarrow> blanks_state \<Rightarrow> blanks_state" where
  "showAllAnswers answers st =
     st\<lparr>inputs := map Val answers, submitted := True, showAnswers := True\<rparr>"

datatype error = TypeError

text \<open>
  \<open>inputs.every((val, idx) => val.trim().toLowerCase() === answers[idx].toLowerCase())\<close>,
  from index \<open>idx\<close> on, \<open>as\<close> being \<open>answers\<close> from \<open>idx\<close> on. \<open>every\<close> skips holes and stops at
  the first \<open>false\<close>; \<open>undefined.trim()\<close> and \<open>undefined.toLowerCase()\<close> throw a TypeError.
\<close>

fun every_correct :: "string jsarray \<Rightarrow> string list \<Rightarrow> error + bool" where
  "every_correct [] as = Inr True"
| "every_correct (Hole # cs) as = every_correct cs (drop 1 as)"
| "every_correct (Undefined # cs) as = Inl TypeError"
| "every_correct (Val v # cs) [] = Inl TypeError"
| "every_correct (Val v # cs) (a # as) =
     (if toLowerCase (trim v) = toLowerCase a then every_correct cs as else Inr False)"

definition allCorrect :: "blanks_state \<Rightarrow> string list \<Rightarrow> error + bool" where
  "allCorrect st answers = every_correct (inputs st) answers"

text \<open>
  An answer is degenerate when it begins or ends with white space: \<open>trim\<close> changes it, and
  (lemma \<open>degenerate_answer_unmatchable\<close>) no input at all is then accepted for it.
\<close>

definition degenerate_answer :: "string \<Rightarrow> bool" where
  "degenerate_answer a = (trim a \<noteq> a)"

text \<open>A string that \<open>trim\<close> leaves alone: empty, or with no white space at either end.\<close>

definition trimmed :: "string \<Rightarrow> bool" where
  "trimmed s = (s = [] \<or> (\<not> is_space (hd s) \<and> \<not> is_space (last s)))"

section \<open>The choices of a picker blank\<close>

text \<open>\<open>Array.from(new Set(xs))\<close>: the elements in order of first occurrence.\<close>

fun uniq_go :: "string list \<Rightarrow> string list \<Rightarrow> string list" where
  "uniq_go seen [] = []"
| "uniq_go seen (x # xs) =
     (if x \<in> set seen then uniq_go seen xs else x # uniq_go (seen @ [x]) xs)"

definition js_uniq :: "string list \<Rightarrow> string list" where
  "js_uniq xs = uniq_go [] xs"

text \<open>
  \<open>dropdownOptions\<close> in \<open>renderBlank\<close>. \<open>Array.prototype.sort\<close> without a comparator orders
  strings by their code units, which is the lexicographic order on \<open>string\<close> here.
\<close>

definition dropdownOptions :: "string list \<Rightarrow> BlankData \<Rightarrow> string list" where
  "dropdownOptions options data =
     (let currentOptions = (if length (localOptions data) > 0 then localOptions data else options)
      in sort (js_uniq (currentOptions @ [answer data])))"

section \<open>The status derived by renderContent\<close>

record BlankStatus =
  status_value :: string
  isCorrect :: bool
  isWrong :: bool
  status_touched :: bool
  showValidation :: bool

text \<open>
  The variables that the function \<open>renderContent\<close> closes over. \<open>children\<close> is passed to the
  walker as an argument of the model.
\<close>

record render_env =
  rc_blanksData :: "BlankData list"
  rc_inputs :: "string jsarray"
  rc_submitted :: bool
  rc_touched :: "bool jsarray"
  rc_blurred :: "bool jsarray"

text \<open>\<open>inputs[index] || ''\<close>: \<open>undefined\<close> and the empty string both give the empty string.\<close>

definition or_empty :: "string option \<Rightarrow> string" where
  "or_empty r = (case r of None \<Rightarrow> [] | Some v \<Rightarrow> v)"

definition blank_status :: "render_env \<Rightarrow> nat \<Rightarrow> BlankData \<Rightarrow> BlankStatus" where
  "blank_status env index data =
     (let v = or_empty (js_get (rc_inputs env) index);
          correct = (toLowerCase (trim v) = toLowerCase (answer data));
          showV = (rc_submitted env \<or> (truthy_flag (js_get (rc_touched env) index) \<and> trim v \<noteq> []));
          isPartialMatch = (length (trim v) > 0
                            \<and> startsWith (toLowerCase (answer data)) (toLowerCase (trim v)))
      in \<lparr>status_value = v,
          isCorrect = correct,
          isWrong = (showV \<and> \<not> correct
                     \<and> (rc_submitted env
                          \<or> (\<not> isPartialMatch \<or> truthy_flag (js_get (rc_blurred env) index)))),
          status_touched = truthy_flag (js_get (rc_touched env) index),
          showValidation = showV\<rparr>)"

subsection \<open>The memoised renderContent\<close>

text \<open>
  \<open>renderContent\<close> is built with \<open>useCallback\<close> and the dependency list
  \<open>[children, blanksData, inputs, submitted, touched]\<close>. On a render React builds a new
  function, closing over the state of that render, only when one of these differs from the
  render before (by \<open>Object.is\<close>); otherwise the previous function is returned, with the
  variables it captured. \<open>blurred\<close> is read by the function and is not in the list.

  A component is the state of the hook together with the variables captured by the current
  \<open>renderContent\<close>. The content (\<open>children\<close>, hence \<open>blanksData\<close>) is fixed for a component.
\<close>

record component =
  hook :: blanks_state
  renderContent_env :: render_env

definition capture :: "BlankData list \<Rightarrow> blanks_state \<Rightarrow> render_env" where
  "capture bd st =
     \<lparr>rc_blanksData = bd, rc_inputs = inputs st, rc_submitted = submitted st,
      rc_touched = touched st, rc_blurred = blurred st\<rparr>"

datatype event =
    InputChange nat string
  | Blur nat
  | CheckAnswers
  | Reset
  | ToggleHint nat
  | ShowAllAnswers

fun apply_event :: "BlankData list \<Rightarrow> event \<Rightarrow> blanks_state \<Rightarrow> blanks_state" where
  "apply_event bd (InputChange i v) st = handleInputChange i v st"
| "apply_event bd (Blur i) st = handleBlur i st"
| "apply_event bd CheckAnswers st = checkAnswers st"
| "apply_event bd Reset st = reset (length (map answer bd)) st"
| "apply_event bd (ToggleHint i) st = toggleHint i st"
| "apply_event bd ShowAllAnswers st = showAllAnswers (map answer bd) st"

text \<open>
  Which handlers store a fresh array with \<open>setInputs\<close> and \<open>setTouched\<close>: a fresh array is a
  new object, so the dependency changed whatever its contents.
\<close>

fun sets_inputs :: "event \<Rightarrow> bool" where
  "sets_inputs (InputChange i v) = True"
| "sets_inputs Reset = True"
| "sets_inputs ShowAllAnswers = True"
| "sets_inputs (Blur i) = False"
| "sets_inputs CheckAnswers = False"
| "sets_inputs (ToggleHint i) = False"

fun sets_touched :: "event \<Rightarrow> bool" where
  "sets_touched (InputChange i v) = True"
| "sets_touched Reset = True"
| "sets_touched ShowAllAnswers = False"
| "sets_touched (Blur i) = False"
| "sets_touched CheckAnswers = False"
| "sets_touched (ToggleHint i) = False"

definition renderContent_deps_changed :: "event \<Rightarrow> blanks_state \<Rightarrow> blanks_state \<Rightarrow> bool" where
  "renderContent_deps_changed ev st st' =
     (sets_inputs ev \<or> sets_touched ev \<or> submitted st' \<noteq> submitted st)"

text \<open>An event: the handler updates the state, then the component renders again.\<close>

definition dispatch :: "BlankData list \<Rightarrow> event \<Rightarrow> component \<Rightarrow> component" where
  "dispatch bd ev c =
     (let st' = apply_event bd ev (hook c)
      in \<lparr>hook = st',
          renderContent_env =
            (if renderContent_deps_changed ev (hook c) st' then capture bd st'
             else renderContent_env c)\<rparr>)"

definition mount :: "BlankData list \<Rightarrow> component" where
  "mount bd =
     \<lparr>hook = init_state (length (map answer bd)),
      renderContent_env = capture bd (init_state (length (map answer bd)))\<rparr>"

section \<open>The content tree\<close>

text \<open>
  A React node: a string, a number, a boolean, \<open>null\<close> or
  \<open>undefined\<close>, an array of nodes, or an element with its type and its \<open>props.children\<close>.
  An element whose type is a component is an element with a tag that is none of the tags
  the code compares with.
\<close>

datatype node =
    Str string
  | Num int
  | Bool bool
  | Null
  | Arr "node list"
  | Elem string node

fun truthy :: "node \<Rightarrow> bool" where
  "truthy (Str s) = (s \<noteq> [])"
| "truthy (Num n) = (n \<noteq> 0)"
| "truthy (Bool b) = b"
| "truthy Null = False"
| "truthy (Arr ns) = True"
| "truthy (Elem t ch) = True"

definition digit_char :: "nat \<Rightarrow> char" where
  "digit_char d = char_of (48 + d)"

fun show_nat :: "nat \<Rightarrow> string" where
  "show_nat n = (if n < 10 then [digit_char n] else show_nat (n div 10) @ [digit_char (n mod 10)])"

declare show_nat.simps [simp del]

text \<open>
  \<open>n.toString()\<close> for the numbers of the model: the integers that \<open>toString\<close> prints digit
  by digit (magnitude below \<open>1e21\<close>; larger values, fractions, \<open>NaN\<close> and \<open>Infinity\<close> are
  outside the model).
\<close>

definition show_int :: "int \<Rightarrow> string" where
  "show_int i = (if i < 0 then CHR ''-'' # show_nat (nat (- i)) else show_nat (nat i))"

text \<open>\<open>React.isValidElement(child)\<close> with a type among \<open>p\<close>, \<open>div\<close>, \<open>li\<close>, \<open>br\<close>.\<close>

fun is_block_child :: "node \<Rightarrow> bool" where
  "is_block_child (Elem t ch) = (t = ''p'' \<or> t = ''div'' \<or> t = ''li'' \<or> t = ''br'')"
| "is_block_child (Str s) = False"
| "is_block_child (Num n) = False"
| "is_block_child (Bool b) = False"
| "is_block_child Null = False"
| "is_block_child (Arr ns) = False"

fun getTextFromChildren :: "node \<Rightarrow> string"
  and getTextFromArray :: "node list \<Rightarrow> string" where
  "getTextFromChildren (Str s) = s"
| "getTextFromChildren (Num n) = show_int n"
| "getTextFromChildren (Arr ns) = getTextFromArray ns"
| "getTextFromChildren (Elem t ch) =
     (if t = ''br'' then [CHR 0x0A]
      else if truthy ch
      then (if t = ''p'' \<or> t = ''div'' then getTextFromChildren ch @ [CHR 0x0A]
            else getTextFromChildren ch)
      else [])"
| "getTextFromChildren (Bool b) = []"
| "getTextFromChildren Null = []"
| "getTextFromArray [] = []"
| "getTextFromArray (child # rest) =
     (if is_block_child child
      then getTextFromChildren child @ (if rest \<noteq> [] then [CHR 0x0A] else [])
      else getTextFromChildren child) @ getTextFromArray rest"

definition blanksData :: "node \<Rightarrow> BlankData list" where
  "blanksData children = parse_text (getTextFromChildren children)"

section \<open>Tree-preserving substitution\<close>

text \<open>
  What \<open>renderContent\<close> returns: text, numbers, the fragment around a call of \<open>renderBlank\<close>
  (recorded with the arguments of the call), a cloned element with its new children, or an
  element without children, returned as it is.
\<close>

datatype rendered =
    RText string
  | RNum int
  | RBlank nat BlankData BlankStatus
  | RElem string "rendered list"
  | RSame string node

text \<open>\<open>xs[i]\<close> on a dense array, \<open>None\<close> for \<open>undefined\<close>.\<close>

definition nth_opt :: "'a list \<Rightarrow> nat \<Rightarrow> 'a option" where
  "nth_opt xs i = (if i < length xs then Some (xs ! i) else None)"

text \<open>
  One part that passed the bracket test, with the counter \<open>c\<close>. Reading \<open>data.answer\<close> from an
  \<open>undefined\<close> \<open>data\<close> would throw.
\<close>

definition render_token :: "render_env \<Rightarrow> nat \<Rightarrow> string \<Rightarrow> error + (rendered \<times> nat)" where
  "render_token env c part =
     (if c \<ge> length (rc_blanksData env) then Inr (RText part, c)
      else (case nth_opt (rc_blanksData env) c of
              None \<Rightarrow> Inl TypeError
            | Some data \<Rightarrow> Inr (RBlank c data (blank_status env c data), c + 1)))"

fun process_parts :: "render_env \<Rightarrow> string list \<Rightarrow> nat \<Rightarrow> error + (rendered list \<times> nat)" where
  "process_parts env [] c = Inr ([], c)"
| "process_parts env (part # ps) c =
     (if is_blank_token part
      then (case render_token env c part of
              Inl e \<Rightarrow> Inl e
            | Inr (r, c') \<Rightarrow>
                (case process_parts env ps c' of
                   Inl e \<Rightarrow> Inl e
                 | Inr (rs, c'') \<Rightarrow> Inr (r # rs, c'')))
      else (case process_parts env ps c of
              Inl e \<Rightarrow> Inl e
            | Inr (rs, c'') \<Rightarrow> Inr (RText part # rs, c'')))"

text \<open>
  \<open>processNode\<close> with the counter \<open>blankIndexCounter\<close> passed in and returned.
  \<open>React.Children.map\<close> walks arrays in order, drops \<open>null\<close>, \<open>undefined\<close> and booleans, and
  flattens the array that the callback returns for a string.
\<close>

fun processNode :: "render_env \<Rightarrow> node \<Rightarrow> nat \<Rightarrow> error + (rendered list \<times> nat)"
  and processNodes :: "render_env \<Rightarrow> node list \<Rightarrow> nat \<Rightarrow> error + (rendered list \<times> nat)" where
  "processNode env (Str s) c = process_parts env (split_blanks s) c"
| "processNode env (Num n) c = Inr ([RNum n], c)"
| "processNode env (Bool b) c = Inr ([], c)"
| "processNode env Null c = Inr ([], c)"
| "processNode env (Arr ns) c = processNodes env ns c"
| "processNode env (Elem t ch) c =
     (if truthy ch
      then (case processNode env ch c of
              Inl e \<Rightarrow> Inl e
            | Inr (rs, c') \<Rightarrow> Inr ([RElem t rs], c'))
      else Inr ([RSame t ch], c))"
| "processNodes env [] c = Inr ([], c)"
| "processNodes env (n # ns) c =
     (case processNode env n c of
        Inl e \<Rightarrow> Inl e
      | Inr (rs, c') \<Rightarrow>
          (case processNodes env ns c' of
             Inl e \<Rightarrow> Inl e
           | Inr (rs', c'') \<Rightarrow> Inr (rs @ rs', c'')))"

definition renderContent :: "render_env \<Rightarrow> node \<Rightarrow> error + rendered list" where
  "renderContent env children =
     (case processNode env children 0 of Inl e \<Rightarrow> Inl e | Inr (rs, c) \<Rightarrow> Inr rs)"

section \<open>The table path\<close>

text \<open>The class \<open>[\s\-:|]\<close>.\<close>

definition sep_class :: "char \<Rightarrow> bool" where
  "sep_class c = (is_space c \<or> c = CHR ''-'' \<or> c = CHR '':'' \<or> c = CHR ''|'')"

text \<open>
  \<open>/^\s*\|[\s\-:|]+\|\s*$/.test(line)\<close>: after the leading white space comes a bar; what
  follows it consists of class characters only; and, white space at the end dropped, it ends
  with a bar that has at least one character before it. Lemma \<open>separator_row_iff\<close> states
  the same as a decomposition of the line.
\<close>

definition separator_row :: "string \<Rightarrow> bool" where
  "separator_row line =
     (case dropWhile is_space line of
        [] \<Rightarrow> False
      | c # rest \<Rightarrow>
          c = CHR ''|'' \<and> list_all sep_class rest
          \<and> (case dropWhile is_space (rev rest) of
                [] \<Rightarrow> False
              | d # before \<Rightarrow> d = CHR ''|'' \<and> before \<noteq> []))"

definition tableDetected :: "string \<Rightarrow> bool" where
  "tableDetected txt =
     (let lines = split_on (CHR 0x0A) txt;
          hasPipes = list_ex (\<lambda>line. includes_char line CHR ''|'') lines;
          hasSeparator = list_ex separator_row lines
      in hasPipes \<and> hasSeparator)"

text \<open>\<open>line.match(/^\s*/)?.[0].length || 0\<close>.\<close>

definition indent_of :: "string \<Rightarrow> nat" where
  "indent_of line = length (takeWhile is_space line)"

text \<open>The \<open>reduce\<close> that computes \<open>minIndent\<close>; \<open>None\<close> is \<open>Infinity\<close>.\<close>

definition min_indent_step :: "nat option \<Rightarrow> string \<Rightarrow> nat option" where
  "min_indent_step m line =
     (if length (trim line) = 0 then m
      else (case m of None \<Rightarrow> Some (indent_of line) | Some k \<Rightarrow> Some (min k (indent_of line))))"

definition minIndent :: "string list \<Rightarrow> nat option" where
  "minIndent lines = foldl min_indent_step None lines"

definition dedent_line :: "nat \<Rightarrow> string \<Rightarrow> string" where
  "dedent_line k line = (if length line \<ge> k then drop k line else line)"

text \<open>The \<open>useMemo\<close> that yields \<open>rawText\<close> and \<open>isTable\<close>.\<close>

definition preprocess :: "node \<Rightarrow> string \<times> bool" where
  "preprocess children =
     (let txt = getTextFromChildren children;
          lines = split_on (CHR 0x0A) txt;
          detected = tableDetected txt
      in if detected \<or> includes_char txt (CHR 0x0A)
         then (case minIndent lines of
                 None \<Rightarrow> (txt, detected)
               | Some k \<Rightarrow>
                   (if k > 0 then (join_with [CHR 0x0A] (map (dedent_line k) lines), detected)
                    else (txt, detected)))
         else (txt, False))"

definition rawText :: "node \<Rightarrow> string" where
  "rawText children = fst (preprocess children)"

definition isTable :: "node \<Rightarrow> bool" where
  "isTable children = snd (preprocess children)"

definition placeholder :: "nat \<Rightarrow> string" where
  "placeholder index = ''<span data-blank=\"'' @ show_nat index @ ''\"></span>''"

text \<open>The \<open>parts.map\<close> of \<open>processedMarkdown\<close>, with the counter \<open>blankIndex\<close>.\<close>

fun mark_parts :: "string list \<Rightarrow> nat \<Rightarrow> string list" where
  "mark_parts [] k = []"
| "mark_parts (part # ps) k =
     (if is_blank_token part then placeholder k # mark_parts ps (k + 1)
      else part # mark_parts ps k)"

definition processedMarkdown :: "node \<Rightarrow> string" where
  "processedMarkdown children =
     (if \<not> isTable children then []
      else concat (mark_parts (split_blanks (rawText children)) 0))"

subsection \<open>Resolving a marker\<close>

definition digit_val :: "char \<Rightarrow> nat option" where
  "digit_val c =
     (let n = (of_char c :: nat)
      in if 48 \<le> n \<and> n \<le> 57 then Some (n - 48)
         else if 97 \<le> n \<and> n \<le> 122 then Some (n - 87)
         else if 65 \<le> n \<and> n \<le> 90 then Some (n - 55)
         else None)"

definition radix_digit :: "nat \<Rightarrow> char \<Rightarrow> nat option" where
  "radix_digit r c = (case digit_val c of None \<Rightarrow> None | Some d \<Rightarrow> if d < r then Some d else None)"

fun take_digits :: "nat \<Rightarrow> string \<Rightarrow> nat list" where
  "take_digits r [] = []"
| "take_digits r (c # cs) =
     (case radix_digit r c of None \<Rightarrow> [] | Some d \<Rightarrow> d # take_digits r cs)"

definition digits_value :: "nat \<Rightarrow> nat list \<Rightarrow> nat" where
  "digits_value r ds = foldl (\<lambda>acc d. acc * r + d) 0 ds"

text \<open>
  \<open>parseInt(s)\<close> without a radix: white space, a sign, an optional \<open>0x\<close>, then the longest
  run of digits; \<open>None\<close> is \<open>NaN\<close>. (Values are exact integers here.)
\<close>

definition parseInt :: "string \<Rightarrow> int option" where
  "parseInt s =
     (let s1 = dropWhile is_space s;
          neg = startsWith s1 ''-'';
          s2 = (if startsWith s1 ''-'' \<or> startsWith s1 ''+'' then drop 1 s1 else s1);
          hex = (startsWith s2 ''0x'' \<or> startsWith s2 ''0X'');
          s3 = (if hex then drop 2 s2 else s2);
          r = (if hex then 16 else 10);
          ds = take_digits r s3
      in if ds = [] then None
         else Some (if neg then - int (digits_value r ds) else int (digits_value r ds)))"

text \<open>The value of \<open>InlineBlanksContext\<close>, without its two callbacks.\<close>

record table_context =
  ctx_blanksData :: "BlankData list"
  ctx_inputs :: "string jsarray"
  ctx_touched :: "bool jsarray"
  ctx_blurred :: "bool jsarray"

definition table_status :: "table_context \<Rightarrow> nat \<Rightarrow> BlankData \<Rightarrow> BlankStatus" where
  "table_status ctx index data =
     (let v = or_empty (js_get (ctx_inputs ctx) index);
          correct = (toLowerCase (trim v) = toLowerCase (answer data));
          showV = (truthy_flag (js_get (ctx_touched ctx) index)
                   \<and> truthy_flag (js_get (ctx_blurred ctx) index) \<and> trim v \<noteq> [])
      in \<lparr>status_value = v, isCorrect = correct, isWrong = (showV \<and> \<not> correct),
          status_touched = truthy_flag (js_get (ctx_touched ctx) index),
          showValidation = showV\<rparr>)"

text \<open>
  \<open>InlineMarkdownBlank\<close>: \<open>None\<close> when it renders nothing (\<open>return null\<close>). \<open>blanksData[index]\<close>
  is \<open>undefined\<close> for \<open>NaN\<close>, for a negative index and for an index past the end.
\<close>

definition InlineMarkdownBlank :: "table_context \<Rightarrow> string \<Rightarrow> rendered option" where
  "InlineMarkdownBlank ctx indexStr =
     (case parseInt indexStr of
        None \<Rightarrow> None
      | Some i \<Rightarrow>
          (if i < 0 then None
           else (case nth_opt (ctx_blanksData ctx) (nat i) of
                   None \<Rightarrow> None
                 | Some data \<Rightarrow> Some (RBlank (nat i) data (table_status ctx (nat i) data)))))"

section \<open>The completion bridge of InlineBlanks\<close>

text \<open>
  The state of the component that the two effects use: the ref \<open>exerciseIdRef\<close>, the state
  \<open>isCompleted\<close>, whether the component has rendered before, the values of \<open>allCorrect\<close> and
  \<open>isCompleted\<close> in the previous render (the dependencies of the completion effect that
  the component computes itself), and the log of the calls of \<open>markExerciseComplete\<close>.
\<close>

record bridge_state =
  exerciseIdRef :: string
  isCompleted :: bool
  mounted :: bool
  lastCompletionDeps :: "(bool \<times> bool) option"
  calls :: "(string \<times> string) list"

text \<open>
  What one render gets from outside: the value of \<open>allCorrect\<close>; \<open>location.pathname\<close>;
  whether one of \<open>location.pathname\<close>, \<open>children\<close>, \<open>isExerciseComplete\<close> differs from the
  render before; the result of \<open>generateStableExerciseId\<close>; the answer of
  \<open>isExerciseComplete\<close> for it; whether \<open>markExerciseComplete\<close> or \<open>location.pathname\<close>
  differs from the render before.
\<close>

record render_input =
  r_allCorrect :: bool
  r_pathname :: string
  r_idDepsChanged :: bool
  r_exerciseId :: string
  r_isExerciseComplete :: bool
  r_markDepsChanged :: bool

definition unmounted :: bridge_state where
  "unmounted = \<lparr>exerciseIdRef = [], isCompleted = False, mounted = False,
                 lastCompletionDeps = None, calls = []\<rparr>"

text \<open>
  One render and its effects, in the order of the source. Both effects see the value
  \<open>isCompleted\<close> of this render; the identifier effect runs first and writes the ref that
  the completion effect reads; of the two \<open>setIsCompleted\<close> calls the later one wins.
\<close>

definition commit :: "bridge_state \<Rightarrow> render_input \<Rightarrow> bridge_state" where
  "commit st r =
     (let ic = isCompleted st;
          runId = (\<not> mounted st \<or> r_idDepsChanged r);
          ref = (if runId then r_exerciseId r else exerciseIdRef st);
          runCompletion = (lastCompletionDeps st \<noteq> Some (r_allCorrect r, ic) \<or> r_markDepsChanged r);
          fire = (runCompletion \<and> r_allCorrect r \<and> ref \<noteq> [] \<and> \<not> ic)
      in \<lparr>exerciseIdRef = ref,
          isCompleted = (if fire then True else if runId then r_isExerciseComplete r else ic),
          mounted = True,
          lastCompletionDeps = Some (r_allCorrect r, ic),
          calls = (if fire then calls st @ [(ref, r_pathname r)] else calls st)\<rparr>)"

definition run_renders :: "render_input list \<Rightarrow> bridge_state" where
  "run_renders rs = foldl commit unmounted rs"

text \<open>
  Whether the identifier effect runs in a render: at mount, and when one of its
  dependencies changed.
\<close>

definition runs_identifier_effect :: "bridge_state \<Rightarrow> render_input \<Rightarrow> bool" where
  "runs_identifier_effect st r = (\<not> mounted st \<or> r_idDepsChanged r)"

text \<open>
  Two conditions on what the progress store answers along the renders of a mount, checked
  against the state each render starts from. \<open>store_keeps_calls\<close>: whenever the identifier
  effect runs after the callback was called, \<open>isExerciseComplete\<close> answers true.
  \<open>store_mirrors_calls\<close>: moreover, whenever it runs before any call, the identifier is not
  empty and \<open>isExerciseComplete\<close> answers false.
\<close>

fun store_keeps_calls :: "bridge_state \<Rightarrow> render_input list \<Rightarrow> bool" where
  "store_keeps_calls st [] = True"
| "store_keeps_calls st (r # rs) =
     ((if runs_identifier_effect st r \<and> calls st \<noteq> [] then r_isExerciseComplete r else True)
      \<and> store_keeps_calls (commit st r) rs)"

fun store_mirrors_calls :: "bridge_state \<Rightarrow> render_input list \<Rightarrow> bool" where
  "store_mirrors_calls st [] = True"
| "store_mirrors_calls st (r # rs) =
     ((if runs_identifier_effect st r
       then (if calls st = [] then r_exerciseId r \<noteq> [] \<and> \<not> r_isExerciseComplete r
             else r_isExerciseComplete r)
       else True)
      \<and> store_mirrors_calls (commit st r) rs)"

text \<open>Two invariants of the renders, used in the proofs.\<close>

definition notified_inv :: "bridge_state \<Rightarrow> bool" where
  "notified_inv st = (length (calls st) \<le> 1 \<and> (calls st \<noteq> [] \<longrightarrow> isCompleted st))"

definition waiting_inv :: "bridge_state \<Rightarrow> bool" where
  "waiting_inv st =
     (if calls st = []
      then \<not> isCompleted st
           \<and> (if mounted st
               then exerciseIdRef st \<noteq> [] \<and> lastCompletionDeps st = Some (False, False)
               else lastCompletionDeps st = None)
      else length (calls st) = 1 \<and> isCompleted st)"

text \<open>A render of the lesson \<open>/lesson\<close> whose exercise has the identifier \<open>ex1\<close>.\<close>

definition lesson_render :: "bool \<Rightarrow> bool \<Rightarrow> bool \<Rightarrow> render_input" where
  "lesson_render ac idc store =
     \<lparr>r_allCorrect = ac, r_pathname = ''/lesson'', r_idDepsChanged = idc,
      r_exerciseId = ''ex1'', r_isExerciseComplete = store, r_markDepsChanged = False\<rparr>"

section \<open>Well-bracketed text\<close>

text \<open>
  Every opening bracket of the text is closed on its own line: at each \<open>[\<close> the tail
  \<open>.*?\]\<close> of the blank pattern matches. The parts of such a text that pass the bracket
  test are exactly the matches of the pattern.
\<close>

fun closed_brackets :: "string \<Rightarrow> bool" where
  "closed_brackets [] = True"
| "closed_brackets (c # cs) =
     ((if c = CHR ''['' then find_close cs \<noteq> None else True) \<and> closed_brackets cs)"

text \<open>The parts of a text that the parser and the placeholder pass take for blanks.\<close>

definition tokens :: "string \<Rightarrow> string list" where
  "tokens t = filter is_blank_token (split_blanks t)"

section \<open>Properties of the parser\<close>

lemma split_on_not_Nil: "split_on d s \<noteq> []"
  by (induction s) (auto split: list.splits)

lemma collect_items_spec:
  "collect_items its h opts =
     ((case filter (\<lambda>s. startsWith s ''hint:'') its of
         [] \<Rightarrow> h
       | x # xs \<Rightarrow> Some (drop 5 (last (x # xs)))),
      opts @ filter (\<lambda>s. \<not> startsWith s ''hint:'') its)"
proof (induction its arbitrary: h opts)
  case Nil
  show ?case by simp
next
  case (Cons it its)
  show ?case
    by (cases "filter (\<lambda>s. startsWith s ''hint:'') its") (simp_all add: Cons.IH)
qed

lemma parse_blank_spec:
  "parse_blank p = spec_blank_of_segments (split_on CHR ''|'' (slice_1_m1 p))"
proof (cases "split_on CHR ''|'' (slice_1_m1 p)")
  case Nil
  then show ?thesis using split_on_not_Nil by blast
next
  case (Cons a rest)
  then show ?thesis
    by (simp add: parse_blank_def spec_blank_of_segments_def collect_items_spec)
qed

lemma parse_cat_example:
  "parse_text ''[cat|dog|hint:a pet]'' = [\<lparr>answer = ''cat'', localOptions = [''dog''], hint = Some ''a pet''\<rparr>]"
  by code_simp

text \<open>
  C4: for every token the parser's result is the one the specification describes (answer
  from segment 0, last \<open>hint:\<close> segment as hint without its prefix, the other segments as
  local options in order), and \<open>[cat|dog|hint:a pet]\<close> parses to exactly one blank with
  answer \<open>cat\<close>, local options \<open>[dog]\<close> and hint \<open>a pet\<close>.
\<close>

theorem C4_parser_segments:
  "parse_blank p = spec_blank_of_segments (split_on CHR ''|'' (slice_1_m1 p))
   \<and> parse_text ''[cat|dog|hint:a pet]''
       = [\<lparr>answer = ''cat'', localOptions = [''dog''], hint = Some ''a pet''\<rparr>]"
  using parse_blank_spec parse_cat_example by simp


section \<open>Properties of the state operations\<close>

lemma js_get_set_other:
  "j \<noteq> i \<Longrightarrow> js_get (js_set (js_spread xs) i v) j = js_get xs j"
  by (auto simp: js_get_def js_set_def js_spread_def nth_append split: cell.splits)

lemma js_get_set_same: "js_get (js_set xs i v) i = Some v"
  by (simp add: js_get_def js_set_def nth_append)

text \<open>
  C8: \<open>reset\<close> clears \<open>submitted\<close>, makes every value the empty string and every touched flag
  false, and leaves the \<open>blurred\<close> array as it was.
\<close>

theorem C8_reset_keeps_blurred:
  "submitted (reset n st) = False
   \<and> inputs (reset n st) = replicate n (Val [])
   \<and> touched (reset n st) = replicate n (Val False)
   \<and> blurred (reset n st) = blurred st"
  by (simp add: reset_def array_fill_def)

lemma handleInputChange_frame:
  "j \<noteq> i \<Longrightarrow>
     js_get (inputs (handleInputChange i v st)) j = js_get (inputs st) j
     \<and> js_get (touched (handleInputChange i v st)) j = js_get (touched st) j
     \<and> js_get (blurred (handleInputChange i v st)) j = js_get (blurred st) j"
  by (simp add: handleInputChange_def js_get_set_other)

lemma handleInputChange_rest:
  "showHintFor (handleInputChange i v st) = showHintFor st
   \<and> submitted (handleInputChange i v st) = submitted st
   \<and> showAnswers (handleInputChange i v st) = showAnswers st"
  by (simp add: handleInputChange_def)

lemma handleBlur_frame:
  "j \<noteq> i \<Longrightarrow> js_get (blurred (handleBlur i st)) j = js_get (blurred st) j"
  by (simp add: handleBlur_def js_get_set_other)

lemma handleBlur_rest:
  "inputs (handleBlur i st) = inputs st \<and> touched (handleBlur i st) = touched st
   \<and> showHintFor (handleBlur i st) = showHintFor st
   \<and> submitted (handleBlur i st) = submitted st
   \<and> showAnswers (handleBlur i st) = showAnswers st"
  by (simp add: handleBlur_def)

lemma toggleHint_frame:
  "j \<noteq> i \<Longrightarrow> js_get (showHintFor (toggleHint i st)) j = js_get (showHintFor st) j"
  by (simp add: toggleHint_def js_get_set_other)

lemma toggleHint_rest:
  "inputs (toggleHint i st) = inputs st \<and> touched (toggleHint i st) = touched st
   \<and> blurred (toggleHint i st) = blurred st
   \<and> submitted (toggleHint i st) = submitted st
   \<and> showAnswers (toggleHint i st) = showAnswers st"
  by (simp add: toggleHint_def)

text \<open>
  C9: the per-blank operations are frame-local. For \<open>j \<noteq> i\<close>, \<open>handleInputChange i v\<close> leaves
  \<open>inputs[j]\<close>, \<open>touched[j]\<close>, \<open>blurred[j]\<close>, the hint flags and \<open>submitted\<close> as they were;
  \<open>handleBlur i\<close> changes nothing but \<open>blurred[i]\<close>; \<open>toggleHint i\<close> changes nothing but
  \<open>showHintFor[i]\<close>. It holds for every index, valid or not.
\<close>

theorem C9_frame_local:
  assumes "j \<noteq> i"
  shows "js_get (inputs (handleInputChange i v st)) j = js_get (inputs st) j
         \<and> js_get (touched (handleInputChange i v st)) j = js_get (touched st) j
         \<and> js_get (blurred (handleInputChange i v st)) j = js_get (blurred st) j
         \<and> showHintFor (handleInputChange i v st) = showHintFor st
         \<and> submitted (handleInputChange i v st) = submitted st
         \<and> inputs (handleBlur i st) = inputs st
         \<and> touched (handleBlur i st) = touched st
         \<and> js_get (blurred (handleBlur i st)) j = js_get (blurred st) j
         \<and> showHintFor (handleBlur i st) = showHintFor st
         \<and> submitted (handleBlur i st) = submitted st
         \<and> inputs (toggleHint i st) = inputs st
         \<and> touched (toggleHint i st) = touched st
         \<and> blurred (toggleHint i st) = blurred st
         \<and> js_get (showHintFor (toggleHint i st)) j = js_get (showHintFor st) j
         \<and> submitted (toggleHint i st) = submitted st"
  using handleInputChange_frame [OF assms, of v st] handleInputChange_rest [of i v st]
    handleBlur_frame [OF assms, of st] handleBlur_rest [of i st]
    toggleHint_frame [OF assms, of st] toggleHint_rest [of i st]
  by simp

theorem C9_frame_local_witness:
  "(1::nat) \<noteq> 0
   \<and> js_get (inputs (handleInputChange 0 ''x'' (init_state 2))) 1 = Some []
   \<and> js_get (blurred (handleBlur 0 (init_state 2))) 1 = Some False
   \<and> js_get (showHintFor (toggleHint 0 (init_state 2))) 1 = Some False"
proof -
  have ne: "(1::nat) \<noteq> 0" by simp
  note frame = C9_frame_local [OF ne, of "''x''" "init_state 2"]
  have get1: "js_get (array_fill 2 x) (Suc 0) = Some x" for x :: 'a
    by (simp add: js_get_def array_fill_def numeral_2_eq_2)
  have a: "js_get (inputs (handleInputChange 0 ''x'' (init_state 2))) 1 = js_get (inputs (init_state 2)) 1"
    using frame by (elim conjE)
  have b: "js_get (blurred (handleBlur 0 (init_state 2))) 1 = js_get (blurred (init_state 2)) 1"
    using frame by (elim conjE)
  have c: "js_get (showHintFor (toggleHint 0 (init_state 2))) 1 = js_get (showHintFor (init_state 2)) 1"
    using frame by (elim conjE)
  show ?thesis
    unfolding a b c by (simp add: init_state_def get1)
qed


section \<open>Revealing the answers\<close>

lemma lower_char_space: "is_space (lower_char c) = is_space c"
  by (auto simp: is_space_def lower_char_def Let_def)

lemma last_dropWhile_ne: "dropWhile P xs \<noteq> [] \<Longrightarrow> last (dropWhile P xs) = last xs"
  by (induction xs) (auto split: if_splits)

lemma trimmed_trim: "trimmed (trim v)"
  by (metis trimmed_def dropWhile_idem hd_dropWhile hd_rev last_dropWhile_ne
      last_rev rev.simps(1) trim_def)

lemma trim_trimmed: "trimmed s \<Longrightarrow> trim s = s"
  by (metis trimmed_def dropWhile_eq_self_iff hd_rev rev.simps(1) rev_rev_ident trim_def)

lemma trimmed_toLowerCase: "trimmed (toLowerCase s) = trimmed s"
  by (metis trimmed_def last_map list.map_disc_iff list.map_sel(1)
      lower_char_space toLowerCase_def)

lemma degenerate_answer_unmatchable:
  "degenerate_answer a \<longleftrightarrow> (\<forall>v. toLowerCase (trim v) \<noteq> toLowerCase a)"
proof
  assume deg: "degenerate_answer a"
  show "\<forall>v. toLowerCase (trim v) \<noteq> toLowerCase a"
  proof
    fix v
    show "toLowerCase (trim v) \<noteq> toLowerCase a"
    proof
      assume eq: "toLowerCase (trim v) = toLowerCase a"
      have "trimmed (toLowerCase (trim v))"
        by (simp add: trimmed_toLowerCase trimmed_trim)
      then have "trimmed a"
        by (simp add: eq trimmed_toLowerCase)
      then show False
        using deg trim_trimmed by (simp add: degenerate_answer_def)
    qed
  qed
next
  assume "\<forall>v. toLowerCase (trim v) \<noteq> toLowerCase a"
  then have "toLowerCase (trim a) \<noteq> toLowerCase a" by blast
  then show "degenerate_answer a"
    by (auto simp: degenerate_answer_def)
qed

lemma every_correct_answers:
  "\<forall>a\<in>set as. trim a = a \<Longrightarrow> every_correct (map Val as) as = Inr True"
  by (induction as) auto

text \<open>
  C7: when no answer is degenerate (none begins or ends with white space),
  \<open>showAllAnswers\<close> copies the answers into the values, sets \<open>submitted\<close>, and \<open>allCorrect\<close>
  is true right afterwards. The answer list may have any length.
\<close>

theorem C7_revealAll_allCorrect:
  assumes "\<forall>a\<in>set answers. \<not> degenerate_answer a"
  shows "inputs (showAllAnswers answers st) = map Val answers
         \<and> submitted (showAllAnswers answers st) = True
         \<and> allCorrect (showAllAnswers answers st) answers = Inr True"
proof -
  have "\<forall>a\<in>set answers. trim a = a"
    using assms by (simp add: degenerate_answer_def)
  then have "every_correct (map Val answers) answers = Inr True"
    by (rule every_correct_answers)
  then show ?thesis
    by (simp add: showAllAnswers_def allCorrect_def)
qed

theorem C7_revealAll_allCorrect_witness:
  "\<not> degenerate_answer ''Paris'' \<and> \<not> degenerate_answer ''cat''
   \<and> inputs (showAllAnswers [''Paris'', ''cat''] (init_state 2)) = [Val ''Paris'', Val ''cat'']
   \<and> allCorrect (showAllAnswers [''Paris'', ''cat''] (init_state 2)) [''Paris'', ''cat''] = Inr True"
proof -
  have t1: "trim ''Paris'' = ''Paris''" by code_simp
  have t2: "trim ''cat'' = ''cat''" by code_simp
  have h: "\<forall>a\<in>set [''Paris'', ''cat'']. \<not> degenerate_answer a"
    by (simp add: degenerate_answer_def t1 t2)
  show ?thesis
    using h C7_revealAll_allCorrect [OF h, of "init_state 2"] by simp
qed

section \<open>The choices of a picker blank: properties\<close>

lemma set_uniq_go: "set (uniq_go seen xs) = set xs - set seen"
  by (induction xs arbitrary: seen) auto

lemma distinct_uniq_go: "distinct (uniq_go seen xs)"
  by (induction xs arbitrary: seen) (auto simp: set_uniq_go)

text \<open>
  C3, as the code has it: the choices of a blank are its local options when it has any,
  otherwise the global options, together with the answer, without duplicates and sorted.
\<close>

theorem C3_dropdown_choices:
  "set (dropdownOptions options data)
     = (if localOptions data \<noteq> [] then set (localOptions data) else set options) \<union> {answer data}
   \<and> distinct (dropdownOptions options data)
   \<and> sorted (dropdownOptions options data)"
  by (simp add: dropdownOptions_def js_uniq_def set_uniq_go distinct_uniq_go)

text \<open>
  C3 as stated fails: a blank with a local option does not offer the global options.
\<close>

theorem C3_union_counterexample:
  "dropdownOptions [''bird''] \<lparr>answer = ''cat'', localOptions = [''dog''], hint = None\<rparr>
     = [''cat'', ''dog'']
   \<and> ''bird'' \<notin> set (dropdownOptions [''bird'']
                        \<lparr>answer = ''cat'', localOptions = [''dog''], hint = None\<rparr>)"
proof -
  have "dropdownOptions [''bird''] \<lparr>answer = ''cat'', localOptions = [''dog''], hint = None\<rparr>
          = [''cat'', ''dog'']"
    by code_simp
  then show ?thesis by simp
qed

section \<open>The status after typing and blurring\<close>

lemma parse_Paris:
  "parse_text ''[Paris]'' = [\<lparr>answer = ''Paris'', localOptions = [], hint = None\<rparr>]"
  by code_simp

lemma trim_Par: "trim ''Par'' = ''Par''"
  by code_simp

lemma lower_Par: "toLowerCase ''Par'' = ''par''"
  by code_simp

lemma lower_Paris: "toLowerCase ''Paris'' = ''paris''"
  by code_simp

lemmas component_defs =
  dispatch_def mount_def capture_def init_state_def handleInputChange_def handleBlur_def
  js_set_def js_spread_def js_get_def array_fill_def renderContent_deps_changed_def

lemmas status_defs = blank_status_def or_empty_def truthy_flag_def js_get_def startsWith_def

lemma typed_Par:
  "dispatch (parse_text ''[Paris]'') (InputChange 0 ''Par'') (mount (parse_text ''[Paris]''))
     = \<lparr>hook = \<lparr>inputs = [Val ''Par''], touched = [Val True], blurred = [Val False],
                 submitted = False, showAnswers = False, showHintFor = [Val False]\<rparr>,
         renderContent_env = \<lparr>rc_blanksData = parse_text ''[Paris]'', rc_inputs = [Val ''Par''],
                 rc_submitted = False, rc_touched = [Val True], rc_blurred = [Val False]\<rparr>\<rparr>"
  by (simp add: component_defs parse_Paris)

lemma blurred_Par:
  "dispatch (parse_text ''[Paris]'') (Blur 0)
     (dispatch (parse_text ''[Paris]'') (InputChange 0 ''Par'') (mount (parse_text ''[Paris]'')))
     = \<lparr>hook = \<lparr>inputs = [Val ''Par''], touched = [Val True], blurred = [Val True],
                 submitted = False, showAnswers = False, showHintFor = [Val False]\<rparr>,
         renderContent_env = \<lparr>rc_blanksData = parse_text ''[Paris]'', rc_inputs = [Val ''Par''],
                 rc_submitted = False, rc_touched = [Val True], rc_blurred = [Val False]\<rparr>\<rparr>"
  unfolding typed_Par by (simp add: component_defs)

lemma retyped_Pari:
  "dispatch (parse_text ''[Paris]'') (InputChange 0 ''Pari'')
     (dispatch (parse_text ''[Paris]'') (Blur 0)
        (dispatch (parse_text ''[Paris]'') (InputChange 0 ''Par'') (mount (parse_text ''[Paris]''))))
     = \<lparr>hook = \<lparr>inputs = [Val ''Pari''], touched = [Val True], blurred = [Val False],
                 submitted = False, showAnswers = False, showHintFor = [Val False]\<rparr>,
         renderContent_env = \<lparr>rc_blanksData = parse_text ''[Paris]'', rc_inputs = [Val ''Pari''],
                 rc_submitted = False, rc_touched = [Val True], rc_blurred = [Val False]\<rparr>\<rparr>"
  unfolding blurred_Par by (simp add: component_defs)

lemma trim_Pari: "trim ''Pari'' = ''Pari''"
  by code_simp

lemma lower_Pari: "toLowerCase ''Pari'' = ''pari''"
  by code_simp

text \<open>
  After a blur the component holds the \<open>renderContent\<close> of the render before, whatever the
  state: the status it passes to \<open>renderBlank\<close> is the one from before the blur.
\<close>

lemma blur_keeps_renderContent:
  "renderContent_env (dispatch bd (Blur i) c) = renderContent_env c"
  by (simp add: dispatch_def renderContent_deps_changed_def handleBlur_def)

text \<open>
  C1, evaluated on the code: one blank with answer \<open>Paris\<close>. After typing \<open>Par\<close> the status
  passed to \<open>renderBlank\<close> has \<open>isWrong = False\<close>. After the blur \<open>blurred[0]\<close> is true and the
  formula on the current state gives \<open>isWrong = True\<close>, but \<open>renderContent\<close> was not rebuilt
  (none of its dependencies changed), so the status it passes still has \<open>isWrong = False\<close>.
  After typing on to \<open>Pari\<close>, \<open>blurred[0]\<close> is false again and so is \<open>isWrong\<close>.
\<close>

theorem C1_blur_status_stale:
  "isWrong (blank_status
      (renderContent_env (dispatch (parse_text ''[Paris]'') (InputChange 0 ''Par'')
         (mount (parse_text ''[Paris]''))))
      0 (parse_text ''[Paris]'' ! 0)) = False
   \<and> js_get (blurred (hook (dispatch (parse_text ''[Paris]'') (Blur 0)
         (dispatch (parse_text ''[Paris]'') (InputChange 0 ''Par'')
            (mount (parse_text ''[Paris]'')))))) 0 = Some True
   \<and> isWrong (blank_status
      (capture (parse_text ''[Paris]'')
         (hook (dispatch (parse_text ''[Paris]'') (Blur 0)
            (dispatch (parse_text ''[Paris]'') (InputChange 0 ''Par'')
               (mount (parse_text ''[Paris]''))))))
      0 (parse_text ''[Paris]'' ! 0)) = True
   \<and> isWrong (blank_status
      (renderContent_env (dispatch (parse_text ''[Paris]'') (Blur 0)
         (dispatch (parse_text ''[Paris]'') (InputChange 0 ''Par'')
            (mount (parse_text ''[Paris]'')))))
      0 (parse_text ''[Paris]'' ! 0)) = False
   \<and> js_get (blurred (hook (dispatch (parse_text ''[Paris]'') (InputChange 0 ''Pari'')
         (dispatch (parse_text ''[Paris]'') (Blur 0)
            (dispatch (parse_text ''[Paris]'') (InputChange 0 ''Par'')
               (mount (parse_text ''[Paris]''))))))) 0 = Some False
   \<and> isWrong (blank_status
      (renderContent_env (dispatch (parse_text ''[Paris]'') (InputChange 0 ''Pari'')
         (dispatch (parse_text ''[Paris]'') (Blur 0)
            (dispatch (parse_text ''[Paris]'') (InputChange 0 ''Par'')
               (mount (parse_text ''[Paris]''))))))
      0 (parse_text ''[Paris]'' ! 0)) = False"
  unfolding retyped_Pari unfolding blurred_Par unfolding typed_Par
  by (simp add: status_defs capture_def parse_Paris trim_Par lower_Par lower_Paris
      trim_Pari lower_Pari)

theorem C1_blur_status_stale_witness:
  "js_get (blurred (hook (dispatch (parse_text ''[Paris]'') (Blur 0)
         (dispatch (parse_text ''[Paris]'') (InputChange 0 ''Par'')
            (mount (parse_text ''[Paris]'')))))) 0 = Some True
   \<and> \<not> isWrong (blank_status
      (renderContent_env (dispatch (parse_text ''[Paris]'') (Blur 0)
         (dispatch (parse_text ''[Paris]'') (InputChange 0 ''Par'')
            (mount (parse_text ''[Paris]'')))))
      0 (parse_text ''[Paris]'' ! 0))"
  using C1_blur_status_stale by simp

section \<open>Fail-soft substitution\<close>











section \<open>Table detection\<close>

lemma bar_not_space: "\<not> is_space CHR ''|''"
  by (simp add: is_space_def)

lemma space_sep_class: "is_space c \<Longrightarrow> sep_class c"
  by (simp add: sep_class_def)

lemma dropWhile_space_append:
  "list_all is_space w \<Longrightarrow> dropWhile is_space (w @ l) = dropWhile is_space l"
  by (simp add: list_all_iff)

lemma trim_Nil_iff: "trim l = [] \<longleftrightarrow> list_all is_space l"
proof -
  have "trim l = [] \<longleftrightarrow> (\<forall>x\<in>set (dropWhile is_space l). is_space x)"
    by (simp add: trim_def dropWhile_eq_Nil_conv)
  also have "\<dots> \<longleftrightarrow> dropWhile is_space l = []"
  proof
    assume a: "\<forall>x\<in>set (dropWhile is_space l). is_space x"
    show "dropWhile is_space l = []"
    proof (rule ccontr)
      assume ne: "dropWhile is_space l \<noteq> []"
      then have "\<not> is_space (hd (dropWhile is_space l))" by (rule hd_dropWhile)
      moreover have "hd (dropWhile is_space l) \<in> set (dropWhile is_space l)"
        using ne by simp
      ultimately show False using a by blast
    qed
  next
    assume e: "dropWhile is_space l = []"
    show "\<forall>x\<in>set (dropWhile is_space l). is_space x"
      unfolding e by simp
  qed
  also have "\<dots> \<longleftrightarrow> list_all is_space l"
    by (simp add: dropWhile_eq_Nil_conv list_all_iff)
  finally show ?thesis .
qed

lemma separator_row_iff:
  "separator_row l \<longleftrightarrow>
     (\<exists>w x w'. l = w @ [CHR ''|''] @ x @ [CHR ''|''] @ w'
        \<and> list_all is_space w \<and> x \<noteq> [] \<and> list_all sep_class x \<and> list_all is_space w')"
proof
  assume sr: "separator_row l"
  then obtain rest where r: "dropWhile is_space l = CHR ''|'' # rest"
    by (auto simp: separator_row_def split: list.splits)
  from sr r have cls: "list_all sep_class rest"
    by (simp add: separator_row_def)
  from sr r obtain before where b: "dropWhile is_space (rev rest) = CHR ''|'' # before" "before \<noteq> []"
    by (auto simp: separator_row_def split: list.splits)
  have l: "l = takeWhile is_space l @ CHR ''|'' # rest"
    using r takeWhile_dropWhile_id [of is_space l] by simp
  have "rev rest = takeWhile is_space (rev rest) @ CHR ''|'' # before"
    using b takeWhile_dropWhile_id [of is_space "rev rest"] by simp
  then have "rev (rev rest) = rev (takeWhile is_space (rev rest) @ CHR ''|'' # before)"
    by simp
  then have rest: "rest = rev before @ CHR ''|'' # rev (takeWhile is_space (rev rest))"
    by simp
  have w: "list_all is_space (takeWhile is_space l)"
    by (auto simp: list_all_iff dest: set_takeWhileD)
  have w': "list_all is_space (rev (takeWhile is_space (rev rest)))"
    by (auto simp: list_all_iff dest: set_takeWhileD)
  have x: "list_all sep_class (rev before)"
    using cls rest by (metis list_all_append)
  have "l = takeWhile is_space l @ [CHR ''|''] @ rev before @ [CHR ''|'']
              @ rev (takeWhile is_space (rev rest))"
    using l rest by simp
  then show "\<exists>w x w'. l = w @ [CHR ''|''] @ x @ [CHR ''|''] @ w'
        \<and> list_all is_space w \<and> x \<noteq> [] \<and> list_all sep_class x \<and> list_all is_space w'"
    using w w' x b(2) by (metis rev_is_Nil_conv)
next
  assume "\<exists>w x w'. l = w @ [CHR ''|''] @ x @ [CHR ''|''] @ w'
        \<and> list_all is_space w \<and> x \<noteq> [] \<and> list_all sep_class x \<and> list_all is_space w'"
  then obtain w x w' where l: "l = w @ [CHR ''|''] @ x @ [CHR ''|''] @ w'"
    and w: "list_all is_space w" and x: "x \<noteq> []" "list_all sep_class x"
    and w': "list_all is_space w'"
    by blast
  have d: "dropWhile is_space l = CHR ''|'' # (x @ CHR ''|'' # w')"
    using w bar_not_space by (simp add: l dropWhile_space_append)
  have cls: "list_all sep_class (x @ CHR ''|'' # w')"
    using x(2) w' by (auto simp: list_all_iff sep_class_def)
  have "list_all is_space (rev w')" using w' by (simp add: list_all_iff)
  then have e: "dropWhile is_space (rev w' @ CHR ''|'' # rev x) = CHR ''|'' # rev x"
    using bar_not_space by (simp add: dropWhile_space_append)
  show "separator_row l"
    using x(1) cls by (simp add: separator_row_def d e)
qed

lemma minIndent_fold_bound:
  "foldl min_indent_step m ls = Some k \<Longrightarrow>
     (\<forall>l\<in>set ls. trim l \<noteq> [] \<longrightarrow> k \<le> indent_of l) \<and> (\<forall>j. m = Some j \<longrightarrow> k \<le> j)"
proof (induction ls arbitrary: m)
  case Nil
  then show ?case by simp
next
  case (Cons l ls)
  from Cons.prems have f: "foldl min_indent_step (min_indent_step m l) ls = Some k" by simp
  note ih = Cons.IH [OF f]
  show ?case
  proof (cases "trim l = []")
    case True
    then show ?thesis using ih by (simp add: min_indent_step_def)
  next
    case False
    then show ?thesis using ih
      by (cases m) (auto simp: min_indent_step_def)
  qed
qed

lemma take_indent_spaces: "k \<le> indent_of l \<Longrightarrow> list_all is_space (take k l)"
proof -
  assume "k \<le> indent_of l"
  then have "take k l = take k (takeWhile is_space l)"
    by (metis indent_of_def takeWhile_dropWhile_id take_append diff_is_0_eq take_0 append_Nil2)
  then show ?thesis
    by (auto simp: list_all_iff dest: in_set_takeD set_takeWhileD)
qed

lemma dedent_line_split:
  assumes "minIndent ls = Some k" "l \<in> set ls"
  shows "\<exists>w. list_all is_space w \<and> l = w @ dedent_line k l"
proof (cases "k \<le> length l")
  case True
  have "list_all is_space (take k l)"
  proof (cases "trim l = []")
    case True
    then have "list_all is_space l" by (simp add: trim_Nil_iff)
    then show ?thesis by (auto simp: list_all_iff dest: in_set_takeD)
  next
    case False
    then have "k \<le> indent_of l"
      using minIndent_fold_bound [of None ls k] assms by (simp add: minIndent_def)
    then show ?thesis by (rule take_indent_spaces)
  qed
  moreover have "l = take k l @ dedent_line k l"
    using True by (simp add: dedent_line_def)
  ultimately show ?thesis by blast
next
  case False
  then have "l = [] @ dedent_line k l" by (simp add: dedent_line_def)
  then show ?thesis by (intro exI [of _ "[]"]) simp
qed

lemma split_on_no_sep: "l \<in> set (split_on d s) \<Longrightarrow> d \<notin> set l"
  by (induction s arbitrary: l) (auto split: if_splits list.splits)

lemma split_on_single: "d \<notin> set l \<Longrightarrow> split_on d l = [l]"
  by (induction l) auto

lemma split_on_append: "d \<notin> set l \<Longrightarrow> split_on d (l @ d # rest) = l # split_on d rest"
  by (induction l) auto

lemma split_on_join:
  "ls \<noteq> [] \<Longrightarrow> \<forall>l\<in>set ls. d \<notin> set l \<Longrightarrow> split_on d (join_with [d] ls) = ls"
proof (induction "[d]" ls rule: join_with.induct)
  case 1
  then show ?case by simp
next
  case (2 x)
  then show ?case by (simp add: split_on_single)
next
  case (3 x y ys)
  then show ?case by (simp add: split_on_append)
qed

lemma separator_row_indent:
  "list_all is_space w \<Longrightarrow> separator_row (w @ l) = separator_row l"
  by (simp add: separator_row_def dropWhile_space_append)

lemma includes_bar_indent:
  "list_all is_space w \<Longrightarrow> includes_char (w @ l) CHR ''|'' = includes_char l CHR ''|''"
  using bar_not_space by (auto simp: includes_char_def list_all_iff)

lemma tableDetected_join:
  "ls \<noteq> [] \<Longrightarrow> \<forall>l\<in>set ls. CHR 0x0A \<notin> set l \<Longrightarrow>
   tableDetected (join_with [CHR 0x0A] ls)
     = (list_ex (\<lambda>l. includes_char l CHR ''|'') ls \<and> list_ex separator_row ls)"
  by (simp add: tableDetected_def split_on_join Let_def)

lemma tableDetected_lines:
  "tableDetected txt
     = (list_ex (\<lambda>l. includes_char l CHR ''|'') (split_on (CHR 0x0A) txt)
        \<and> list_ex separator_row (split_on (CHR 0x0A) txt))"
  by (simp add: tableDetected_def Let_def)

lemma list_ex_map_same:
  "\<forall>l\<in>set ls. P (f l) = P l \<Longrightarrow> list_ex P (map f ls) = list_ex P ls"
  by (auto simp: list_ex_iff)

lemma tableDetected_relines:
  assumes same: "\<forall>l\<in>set (split_on (CHR 0x0A) txt). \<exists>w. list_all is_space w \<and> l = w @ f l"
    and nonl: "\<forall>l\<in>set (split_on (CHR 0x0A) txt). CHR 0x0A \<notin> set (f l)"
  shows "tableDetected (join_with [CHR 0x0A] (map f (split_on (CHR 0x0A) txt))) = tableDetected txt"
proof -
  let ?ls = "split_on (CHR 0x0A) txt"
  have ne: "map f ?ls \<noteq> []" by (simp add: split_on_not_Nil)
  have nl: "\<forall>l\<in>set (map f ?ls). CHR 0x0A \<notin> set l" using nonl by simp
  have p: "\<forall>l\<in>set ?ls. includes_char (f l) CHR ''|'' = includes_char l CHR ''|''"
    using same includes_bar_indent by metis
  have q: "\<forall>l\<in>set ?ls. separator_row (f l) = separator_row l"
    using same separator_row_indent by metis
  show ?thesis
    unfolding tableDetected_join [OF ne nl] tableDetected_lines [of "txt"]
    using list_ex_map_same [of ?ls "\<lambda>l. includes_char l CHR ''|''" f, OF p]
      list_ex_map_same [of ?ls separator_row f, OF q]
    by simp
qed

lemma isTable_eq: "isTable children = tableDetected (getTextFromChildren children)"
  by (auto simp: isTable_def preprocess_def Let_def split: option.splits)

lemma dedent_line_set: "set (dedent_line k l) \<subseteq> set l"
  by (auto simp: dedent_line_def dest: in_set_dropD)

lemma tableDetected_rawText: "tableDetected (rawText children) = isTable children"
proof -
  let ?txt = "getTextFromChildren children"
  let ?ls = "split_on (CHR 0x0A) ?txt"
  show ?thesis
  proof (cases "\<exists>k. minIndent ?ls = Some k \<and> k > 0
                  \<and> (tableDetected ?txt \<or> includes_char ?txt (CHR 0x0A))")
    case True
    then obtain k where k: "minIndent ?ls = Some k" "k > 0"
      and c: "tableDetected ?txt \<or> includes_char ?txt (CHR 0x0A)" by blast
    have raw: "rawText children = join_with [CHR 0x0A] (map (dedent_line k) ?ls)"
      using k c by (simp add: rawText_def preprocess_def Let_def)
    have same: "\<forall>l\<in>set ?ls. \<exists>w. list_all is_space w \<and> l = w @ dedent_line k l"
      using dedent_line_split [OF k(1)] by blast
    have nonl: "\<forall>l\<in>set ?ls. CHR 0x0A \<notin> set (dedent_line k l)"
      using split_on_no_sep dedent_line_set by blast
    show ?thesis
      unfolding raw isTable_eq by (rule tableDetected_relines [OF same nonl])
  next
    case False
    then have "rawText children = ?txt"
      by (auto simp: rawText_def preprocess_def Let_def split: option.splits)
    then show ?thesis by (simp add: isTable_eq)
  qed
qed

lemma tableDetected_indent:
  assumes w: "list_all is_space w" "CHR 0x0A \<notin> set w"
  shows "tableDetected (join_with [CHR 0x0A] (map (\<lambda>l. w @ l) (split_on (CHR 0x0A) txt)))
           = tableDetected txt"
proof -
  let ?ls = "split_on (CHR 0x0A) txt"
  have ne: "map (\<lambda>l. w @ l) ?ls \<noteq> []" by (simp add: split_on_not_Nil)
  have nl: "\<forall>l\<in>set (map (\<lambda>l. w @ l) ?ls). CHR 0x0A \<notin> set l"
    using w(2) split_on_no_sep by fastforce
  have p: "\<forall>l\<in>set ?ls. includes_char (w @ l) CHR ''|'' = includes_char l CHR ''|''"
    using includes_bar_indent [OF w(1)] by simp
  have q: "\<forall>l\<in>set ?ls. separator_row (w @ l) = separator_row l"
    using separator_row_indent [OF w(1)] by simp
  show ?thesis
    unfolding tableDetected_join [OF ne nl] tableDetected_lines [of "txt"]
    using list_ex_map_same [of ?ls "\<lambda>l. includes_char l CHR ''|''" "\<lambda>l. w @ l", OF p]
      list_ex_map_same [of ?ls separator_row "\<lambda>l. w @ l", OF q]
    by simp
qed

lemma table_example: "isTable (Str (''|a|b|'' @ [CHR 0x0A] @ ''|---|---|'')) = True"
  unfolding isTable_eq by code_simp

lemma no_table_example: "isTable (Str (''|a|b|'' @ [CHR 0x0A] @ ''|c|d|'')) = False"
  unfolding isTable_eq by code_simp

text \<open>
  C5: a text is detected as a table exactly when one of its lines contains a bar and one
  of its lines is a separator row (optional white space, a bar, one or more characters
  among white space, \<open>-\<close>, \<open>:\<close> and bar, a bar, optional white space). The two examples
  evaluate as stated. The result computed on the text as authored is the result of the
  detection on the dedented text \<open>rawText\<close>, and putting the same white space in front of
  every line does not change it.
\<close>

theorem C5_table_detection:
  "(isTable children \<longleftrightarrow>
      (\<exists>l\<in>set (split_on (CHR 0x0A) (getTextFromChildren children)). CHR ''|'' \<in> set l)
      \<and> (\<exists>l\<in>set (split_on (CHR 0x0A) (getTextFromChildren children)).
            \<exists>w x w'. l = w @ [CHR ''|''] @ x @ [CHR ''|''] @ w'
              \<and> list_all is_space w \<and> x \<noteq> [] \<and> list_all sep_class x \<and> list_all is_space w'))
   \<and> isTable (Str (''|a|b|'' @ [CHR 0x0A] @ ''|---|---|''))
   \<and> \<not> isTable (Str (''|a|b|'' @ [CHR 0x0A] @ ''|c|d|''))
   \<and> tableDetected (rawText children) = isTable children
   \<and> (list_all is_space ind \<and> CHR 0x0A \<notin> set ind \<longrightarrow>
        isTable (Str (join_with [CHR 0x0A] (map (\<lambda>l. ind @ l) (split_on (CHR 0x0A) t))))
          = isTable (Str t))"
proof -
  have a: "isTable children \<longleftrightarrow>
      (\<exists>l\<in>set (split_on (CHR 0x0A) (getTextFromChildren children)). CHR ''|'' \<in> set l)
      \<and> (\<exists>l\<in>set (split_on (CHR 0x0A) (getTextFromChildren children)).
            \<exists>w x w'. l = w @ [CHR ''|''] @ x @ [CHR ''|''] @ w'
              \<and> list_all is_space w \<and> x \<noteq> [] \<and> list_all sep_class x \<and> list_all is_space w')"
    unfolding isTable_eq tableDetected_lines list_ex_iff includes_char_def separator_row_iff
    by (rule refl)
  have b: "list_all is_space ind \<and> CHR 0x0A \<notin> set ind \<longrightarrow>
        isTable (Str (join_with [CHR 0x0A] (map (\<lambda>l. ind @ l) (split_on (CHR 0x0A) t))))
          = isTable (Str t)"
    using tableDetected_indent [of ind t] by (simp add: isTable_eq)
  show ?thesis
    using a b table_example no_table_example tableDetected_rawText [of children]
    by blast
qed

theorem C5_table_detection_witness:
  "list_all is_space ''  '' \<and> CHR 0x0A \<notin> set ''  ''
   \<and> isTable (Str (join_with [CHR 0x0A]
        (map (\<lambda>l. ''  '' @ l) (split_on (CHR 0x0A) (''|a|'' @ [CHR 0x0A] @ ''|-|'')))))
       = isTable (Str (''|a|'' @ [CHR 0x0A] @ ''|-|''))
   \<and> isTable (Str (''|a|b|'' @ [CHR 0x0A] @ ''|---|---|''))"
proof -
  have h: "list_all is_space ''  '' \<and> CHR 0x0A \<notin> set ''  ''"
    by (simp add: is_space_def)
  show ?thesis
    using h C5_table_detection [of "Str (''|a|b|'' @ [CHR 0x0A] @ ''|---|---|'')" "''  ''"
        "''|a|'' @ [CHR 0x0A] @ ''|-|''"]
    by blast
qed


section \<open>Markers of the table path\<close>

lemma of_char_digit: "d < 10 \<Longrightarrow> (of_char (digit_char d) :: nat) = 48 + d"
  by (simp add: digit_char_def)

lemma digit_val_digit: "d < 10 \<Longrightarrow> digit_val (digit_char d) = Some d"
  by (simp add: digit_val_def of_char_digit)

lemma digit_not_space: "d < 10 \<Longrightarrow> \<not> is_space (digit_char d)"
  by (simp add: is_space_def of_char_digit)

lemma digit_not_sign: "d < 10 \<Longrightarrow> digit_char d \<noteq> CHR ''-'' \<and> digit_char d \<noteq> CHR ''+''
   \<and> digit_char d \<noteq> CHR ''x'' \<and> digit_char d \<noteq> CHR ''X''"
proof -
  assume d: "d < 10"
  have "(of_char (digit_char d) :: nat) \<noteq> of_char CHR ''-''"
    "(of_char (digit_char d) :: nat) \<noteq> of_char CHR ''+''"
    "(of_char (digit_char d) :: nat) \<noteq> of_char CHR ''x''"
    "(of_char (digit_char d) :: nat) \<noteq> of_char CHR ''X''"
    using d by (simp_all add: of_char_digit)
  then show ?thesis by auto
qed

lemma show_nat_digits:
  "\<exists>ds. show_nat n = map digit_char ds \<and> ds \<noteq> [] \<and> (\<forall>d\<in>set ds. d < 10)
        \<and> digits_value 10 ds = n"
proof (induction n rule: show_nat.induct)
  case (1 n)
  show ?case
  proof (cases "n < 10")
    case True
    then have "show_nat n = map digit_char [n]" by (simp add: show_nat.simps)
    moreover have "digits_value 10 [n] = n" by (simp add: digits_value_def)
    ultimately show ?thesis using True by (intro exI [of _ "[n]"]) simp
  next
    case False
    then obtain ds where ds: "show_nat (n div 10) = map digit_char ds" "ds \<noteq> []"
      "\<forall>d\<in>set ds. d < 10" "digits_value 10 ds = n div 10"
      using 1 by blast
    have "show_nat n = map digit_char (ds @ [n mod 10])"
      using False ds(1) by (subst show_nat.simps) simp
    moreover have "digits_value 10 (ds @ [n mod 10]) = n"
      using ds(4) by (simp add: digits_value_def)
    ultimately show ?thesis using ds(3)
      by (intro exI [of _ "ds @ [n mod 10]"]) auto
  qed
qed

lemma take_digits_map: "\<forall>d\<in>set ds. d < 10 \<Longrightarrow> take_digits 10 (map digit_char ds) = ds"
  by (induction ds) (simp_all add: radix_digit_def digit_val_digit)

lemma parseInt_show_nat: "parseInt (show_nat k) = Some (int k)"
proof -
  obtain ds where ds: "show_nat k = map digit_char ds" "ds \<noteq> []" "\<forall>d\<in>set ds. d < 10"
    "digits_value 10 ds = k"
    using show_nat_digits by blast
  obtain d ds' where c: "ds = d # ds'" using ds(2) by (cases ds) auto
  have d: "d < 10" using ds(3) c by simp
  have s1: "dropWhile is_space (show_nat k) = show_nat k"
    using digit_not_space [OF d] by (simp add: ds(1) c)
  have sg: "\<not> startsWith (show_nat k) ''-''" "\<not> startsWith (show_nat k) ''+''"
    using digit_not_sign [OF d] by (simp_all add: ds(1) c startsWith_def)
  have hx: "\<not> startsWith (show_nat k) ''0x''" "\<not> startsWith (show_nat k) ''0X''"
  proof -
    show "\<not> startsWith (show_nat k) ''0x''"
    proof (cases ds')
      case Nil
      then show ?thesis by (simp add: ds(1) c startsWith_def)
    next
      case (Cons e es)
      then have "e < 10" using ds(3) c by simp
      then show ?thesis using digit_not_sign [of e] Cons
        by (simp add: ds(1) c startsWith_def)
    qed
    show "\<not> startsWith (show_nat k) ''0X''"
    proof (cases ds')
      case Nil
      then show ?thesis by (simp add: ds(1) c startsWith_def)
    next
      case (Cons e es)
      then have "e < 10" using ds(3) c by simp
      then show ?thesis using digit_not_sign [of e] Cons
        by (simp add: ds(1) c startsWith_def)
    qed
  qed
  have td: "take_digits 10 (show_nat k) = ds"
    using take_digits_map [OF ds(3)] by (simp add: ds(1))
  show ?thesis
    using ds(2) ds(4) by (simp add: parseInt_def s1 sg hx td Let_def)
qed

lemma InlineMarkdownBlank_in_range:
  "k < length (ctx_blanksData ctx) \<Longrightarrow>
   InlineMarkdownBlank ctx (show_nat k)
     = Some (RBlank k (ctx_blanksData ctx ! k) (table_status ctx k (ctx_blanksData ctx ! k)))"
  by (simp add: InlineMarkdownBlank_def parseInt_show_nat nth_opt_def)

lemma InlineMarkdownBlank_out_of_range:
  "length (ctx_blanksData ctx) \<le> k \<Longrightarrow> InlineMarkdownBlank ctx (show_nat k) = None"
  by (simp add: InlineMarkdownBlank_def parseInt_show_nat nth_opt_def)

lemma mark_parts_length: "length (mark_parts ps k) = length ps"
  by (induction ps arbitrary: k) auto

lemma mark_parts_tokens:
  "map snd (filter (\<lambda>pm. is_blank_token (fst pm)) (zip ps (mark_parts ps k)))
     = map placeholder [k ..< k + length (filter is_blank_token ps)]"
proof (induction ps arbitrary: k)
  case Nil
  show ?case by simp
next
  case (Cons p ps)
  show ?case
  proof (cases "is_blank_token p")
    case True
    have "[k ..< k + length (filter is_blank_token (p # ps))]
            = k # [Suc k ..< Suc k + length (filter is_blank_token ps)]"
      using True by (subst upt_rec) simp
    then show ?thesis using True Cons [of "Suc k"] by (simp del: upt_Suc)
  next
    case False
    then show ?thesis using Cons [of k] by simp
  qed
qed

lemma mark_parts_literals:
  "map snd (filter (\<lambda>pm. \<not> is_blank_token (fst pm)) (zip ps (mark_parts ps k)))
     = filter (\<lambda>p. \<not> is_blank_token p) ps"
  by (induction ps arbitrary: k) auto

lemma bracket_not_space: "\<not> is_space CHR ''[''"
  by (simp add: is_space_def)

lemma literal_not_token: "CHR ''['' \<notin> set acc \<Longrightarrow> \<not> is_blank_token (rev acc)"
  by (cases "rev acc") (auto simp: is_blank_token_def startsWith_def)

lemma find_close_closed:
  "find_close cs = Some (i, rest) \<Longrightarrow> closed_brackets cs \<Longrightarrow> closed_brackets rest"
  by (induction cs arbitrary: i rest) (auto split: if_splits option.splits)

lemma tokens_acc:
  "closed_brackets s \<Longrightarrow> CHR ''['' \<notin> set acc \<Longrightarrow>
   filter is_blank_token (split_blanks_go acc s) = filter is_blank_token (split_blanks_go [] s)"
proof (induction "length s" arbitrary: acc s rule: less_induct)
  case less
  show ?case
  proof (cases s)
    case Nil
    then show ?thesis using literal_not_token [OF less.prems(2)] literal_not_token [of "[]"] by simp
  next
    case (Cons c cs)
    show ?thesis
    proof (cases "c = CHR ''[''")
      case True
      then obtain i rest where f: "find_close cs = Some (i, rest)"
        using less.prems(1) Cons by auto
      show ?thesis
        using True f Cons literal_not_token [OF less.prems(2)] literal_not_token [of "[]"]
        by simp
    next
      case False
      have cl: "closed_brackets cs" using less.prems(1) Cons by simp
      have "filter is_blank_token (split_blanks_go (c # acc) cs)
              = filter is_blank_token (split_blanks_go [] cs)"
        using less.hyps [of cs "c # acc"] cl False less.prems(2) Cons by simp
      moreover have "filter is_blank_token (split_blanks_go [c] cs)
              = filter is_blank_token (split_blanks_go [] cs)"
        using less.hyps [of cs "[c]"] cl False Cons by simp
      ultimately show ?thesis using False Cons by simp
    qed
  qed
qed

lemma find_close_line:
  "find_close (a @ CHR 0x0A # s)
     = (case find_close a of None \<Rightarrow> None | Some (i, r) \<Rightarrow> Some (i, r @ CHR 0x0A # s))"
  by (induction a) (auto simp: is_line_terminator_def split: option.splits)

lemma closed_brackets_line:
  "closed_brackets (a @ CHR 0x0A # s) = (closed_brackets a \<and> closed_brackets s)"
  by (induction a) (auto simp: find_close_line split: option.splits)

lemma closed_brackets_prefix:
  "CHR ''['' \<notin> set w \<Longrightarrow> closed_brackets (w @ s) = closed_brackets s"
  by (induction w) auto

lemma tokens_line_acc:
  "closed_brackets a \<Longrightarrow> closed_brackets s \<Longrightarrow> CHR ''['' \<notin> set acc \<Longrightarrow>
   filter is_blank_token (split_blanks_go acc (a @ CHR 0x0A # s))
     = filter is_blank_token (split_blanks_go acc a) @ filter is_blank_token (split_blanks_go [] s)"
proof (induction "length a" arbitrary: acc a rule: less_induct)
  case less
  show ?case
  proof (cases a)
    case Nil
    have "filter is_blank_token (split_blanks_go (CHR 0x0A # acc) s)
            = filter is_blank_token (split_blanks_go [] s)"
      using tokens_acc [OF less.prems(2), of "CHR 0x0A # acc"] less.prems(3) by simp
    then show ?thesis using Nil literal_not_token [OF less.prems(3)] by simp
  next
    case (Cons c cs)
    show ?thesis
    proof (cases "c = CHR ''[''")
      case True
      then obtain i rest where f: "find_close cs = Some (i, rest)"
        using less.prems(1) Cons by auto
      have cl: "closed_brackets rest"
        using find_close_closed [OF f] less.prems(1) Cons by simp
      have len: "length rest < length a"
        using find_close_length [OF f] Cons by simp
      have ih: "filter is_blank_token (split_blanks_go [] (rest @ CHR 0x0A # s))
        = filter is_blank_token (split_blanks_go [] rest) @ filter is_blank_token (split_blanks_go [] s)"
        using less.hyps [OF len cl less.prems(2), of "[]"] by simp
      show ?thesis
        using True f Cons ih by (simp add: find_close_line)
    next
      case False
      have "filter is_blank_token (split_blanks_go (c # acc) (cs @ CHR 0x0A # s))
        = filter is_blank_token (split_blanks_go (c # acc) cs) @ filter is_blank_token (split_blanks_go [] s)"
        using less.hyps [of cs "c # acc"] less.prems False Cons by simp
      then show ?thesis using False Cons by simp
    qed
  qed
qed

lemma tokens_line:
  "closed_brackets a \<Longrightarrow> closed_brackets s \<Longrightarrow> tokens (a @ CHR 0x0A # s) = tokens a @ tokens s"
  using tokens_line_acc [of a s "[]"] by (simp add: tokens_def split_blanks_def)

lemma tokens_prefix:
  "CHR ''['' \<notin> set w \<Longrightarrow> closed_brackets s \<Longrightarrow> tokens (w @ s) = tokens s"
proof (induction w)
  case Nil
  show ?case by simp
next
  case (Cons c w)
  have cl: "closed_brackets (w @ s)" using Cons.prems by (simp add: closed_brackets_prefix)
  have "filter is_blank_token (split_blanks_go [c] (w @ s))
          = filter is_blank_token (split_blanks_go [] (w @ s))"
    using tokens_acc [OF cl, of "[c]"] Cons.prems by simp
  moreover have "c \<noteq> CHR ''[''" using Cons.prems by auto
  ultimately show ?case using Cons by (simp add: tokens_def split_blanks_def)
qed

lemma closed_brackets_join:
  "closed_brackets (join_with [CHR 0x0A] ls) = list_all closed_brackets ls"
  by (induction "[CHR 0x0A]" ls rule: join_with.induct) (simp_all add: closed_brackets_line)

lemma tokens_join:
  "list_all closed_brackets ls \<Longrightarrow> tokens (join_with [CHR 0x0A] ls) = concat (map tokens ls)"
proof (induction "[CHR 0x0A]" ls rule: join_with.induct)
  case 1
  show ?case by (simp add: tokens_def split_blanks_def is_blank_token_def startsWith_def)
next
  case (2 x)
  show ?case by simp
next
  case (3 x y ys)
  then show ?case by (simp add: tokens_line closed_brackets_join)
qed

lemma join_with_Cons: "ys \<noteq> [] \<Longrightarrow> join_with sep (x # ys) = x @ sep @ join_with sep ys"
  by (cases ys) simp_all

lemma join_with_head: "join_with sep ((c # r) # rs) = c # join_with sep (r # rs)"
  by (cases rs) simp_all

lemma join_split: "join_with [d] (split_on d s) = s"
proof (induction s)
  case Nil
  show ?case by simp
next
  case (Cons c s)
  show ?case
  proof (cases "c = d")
    case True
    then show ?thesis using Cons by (simp add: join_with_Cons split_on_not_Nil)
  next
    case False
    obtain r rs where "split_on d s = r # rs"
      using split_on_not_Nil [of d s] by (cases "split_on d s") auto
    then show ?thesis using False Cons by (simp add: join_with_head)
  qed
qed

lemma space_no_bracket: "list_all is_space w \<Longrightarrow> CHR ''['' \<notin> set w"
  using bracket_not_space by (auto simp: list_all_iff)

lemma tokens_rawText:
  assumes cl: "closed_brackets (getTextFromChildren children)"
  shows "tokens (rawText children) = tokens (getTextFromChildren children)"
proof -
  let ?txt = "getTextFromChildren children"
  let ?ls = "split_on (CHR 0x0A) ?txt"
  show ?thesis
  proof (cases "\<exists>k. minIndent ?ls = Some k \<and> k > 0
                  \<and> (tableDetected ?txt \<or> includes_char ?txt (CHR 0x0A))")
    case True
    then obtain k where k: "minIndent ?ls = Some k" "k > 0"
      and c: "tableDetected ?txt \<or> includes_char ?txt (CHR 0x0A)" by blast
    have raw: "rawText children = join_with [CHR 0x0A] (map (dedent_line k) ?ls)"
      using k c by (simp add: rawText_def preprocess_def Let_def)
    have cls: "list_all closed_brackets ?ls"
      using cl closed_brackets_join [of ?ls] by (simp add: join_split)
    have each: "closed_brackets (dedent_line k l) \<and> tokens (dedent_line k l) = tokens l"
      if l: "l \<in> set ?ls" for l
    proof -
      obtain w where w: "list_all is_space w" "l = w @ dedent_line k l"
        using dedent_line_split [OF k(1) l] by blast
      have nb: "CHR ''['' \<notin> set w" using w(1) by (rule space_no_bracket)
      have "closed_brackets l" using cls l by (simp add: list_all_iff)
      then have a: "closed_brackets (dedent_line k l)"
        using closed_brackets_prefix [OF nb, of "dedent_line k l"] w(2) by simp
      have "tokens (w @ dedent_line k l) = tokens (dedent_line k l)"
        using tokens_prefix [OF nb a] .
      then show ?thesis using a w(2) by simp
    qed
    have cls': "list_all closed_brackets (map (dedent_line k) ?ls)"
      using each by (simp add: list_all_iff)
    have "tokens (rawText children) = concat (map tokens (map (dedent_line k) ?ls))"
      unfolding raw by (rule tokens_join [OF cls'])
    also have "\<dots> = concat (map tokens ?ls)"
      using each by (simp cong: map_cong)
    also have "\<dots> = tokens (join_with [CHR 0x0A] ?ls)"
      by (rule tokens_join [OF cls, symmetric])
    finally show ?thesis by (simp add: join_split)
  next
    case False
    then have "rawText children = ?txt"
      by (auto simp: rawText_def preprocess_def Let_def split: option.splits)
    then show ?thesis by simp
  qed
qed

lemma parse_rawText:
  "closed_brackets (getTextFromChildren children) \<Longrightarrow>
   parse_text (rawText children) = blanksData children"
  using tokens_rawText [of children] by (simp add: parse_text_def blanksData_def tokens_def)

text \<open>
  C10, as the code has it. The parts of \<open>rawText\<close> that pass the bracket test become the
  placeholders with the indices 0, 1, ... in textual order, as many as the parser extracts
  from \<open>rawText\<close>; the other parts are kept. When every opening bracket of the flattened
  text is closed on its line, or when dedenting changed nothing, the parser extracts the
  same blanks from \<open>rawText\<close> as from the children. A marker with an index in range
  resolves to the blank at that index, and a marker with an index past the end renders
  nothing.
\<close>

theorem C10_placeholders_indexed:
  "map snd (filter (\<lambda>pm. is_blank_token (fst pm))
        (zip (split_blanks (rawText children)) (mark_parts (split_blanks (rawText children)) 0)))
     = map placeholder [0 ..< length (parse_text (rawText children))]
   \<and> map snd (filter (\<lambda>pm. \<not> is_blank_token (fst pm))
        (zip (split_blanks (rawText children)) (mark_parts (split_blanks (rawText children)) 0)))
     = filter (\<lambda>p. \<not> is_blank_token p) (split_blanks (rawText children))
   \<and> (closed_brackets (getTextFromChildren children) \<longrightarrow>
        parse_text (rawText children) = blanksData children)
   \<and> (rawText children = getTextFromChildren children \<longrightarrow>
        parse_text (rawText children) = blanksData children)
   \<and> (k < length (ctx_blanksData ctx) \<longrightarrow>
        InlineMarkdownBlank ctx (show_nat k)
          = Some (RBlank k (ctx_blanksData ctx ! k) (table_status ctx k (ctx_blanksData ctx ! k))))
   \<and> (length (ctx_blanksData ctx) \<le> k \<longrightarrow> InlineMarkdownBlank ctx (show_nat k) = None)"
proof -
  have a: "map snd (filter (\<lambda>pm. is_blank_token (fst pm))
        (zip (split_blanks (rawText children)) (mark_parts (split_blanks (rawText children)) 0)))
     = map placeholder [0 ..< length (parse_text (rawText children))]"
    using mark_parts_tokens [of "split_blanks (rawText children)" 0]
    by (simp add: parse_text_def)
  have c: "rawText children = getTextFromChildren children \<longrightarrow>
        parse_text (rawText children) = blanksData children"
    by (simp add: blanksData_def)
  show ?thesis
    using a c mark_parts_literals [of "split_blanks (rawText children)" 0]
      parse_rawText [of children]
      InlineMarkdownBlank_in_range [of k ctx] InlineMarkdownBlank_out_of_range [of ctx k]
    by blast
qed

lemma table_x_raw: "rawText (Str ''|a|[x]|\<newline>|-|-|'') = getTextFromChildren (Str ''|a|[x]|\<newline>|-|-|'')"
  by code_simp

lemma table_x_blanks:
  "blanksData (Str ''|a|[x]|\<newline>|-|-|'') = [\<lparr>answer = ''x'', localOptions = [], hint = None\<rparr>]"
  by code_simp

lemma table_y_closed: "closed_brackets (getTextFromChildren (Str ''  |a|[x]|\<newline>  |-|-|''))"
  by code_simp

lemma table_y_raw: "rawText (Str ''  |a|[x]|\<newline>  |-|-|'') = ''|a|[x]|\<newline>|-|-|''"
  by code_simp

lemma table_y_blanks:
  "blanksData (Str ''  |a|[x]|\<newline>  |-|-|'') = [\<lparr>answer = ''x'', localOptions = [], hint = None\<rparr>]"
  by code_simp

theorem C10_placeholders_indexed_witness:
  "closed_brackets (getTextFromChildren (Str ''  |a|[x]|\<newline>  |-|-|''))
   \<and> rawText (Str ''  |a|[x]|\<newline>  |-|-|'') = ''|a|[x]|\<newline>|-|-|''
   \<and> parse_text (rawText (Str ''  |a|[x]|\<newline>  |-|-|'')) = [\<lparr>answer = ''x'', localOptions = [], hint = None\<rparr>]
   \<and> rawText (Str ''|a|[x]|\<newline>|-|-|'') = getTextFromChildren (Str ''|a|[x]|\<newline>|-|-|'')
   \<and> parse_text (rawText (Str ''|a|[x]|\<newline>|-|-|'')) = [\<lparr>answer = ''x'', localOptions = [], hint = None\<rparr>]
   \<and> 0 < length (ctx_blanksData \<lparr>ctx_blanksData = blanksData (Str ''|a|[x]|\<newline>|-|-|''), ctx_inputs = [Val []],
                                  ctx_touched = [Val False], ctx_blurred = [Val False]\<rparr>)
   \<and> InlineMarkdownBlank \<lparr>ctx_blanksData = blanksData (Str ''|a|[x]|\<newline>|-|-|''), ctx_inputs = [Val []],
                           ctx_touched = [Val False], ctx_blurred = [Val False]\<rparr> (show_nat 0)
       = Some (RBlank 0 \<lparr>answer = ''x'', localOptions = [], hint = None\<rparr>
           (table_status \<lparr>ctx_blanksData = blanksData (Str ''|a|[x]|\<newline>|-|-|''), ctx_inputs = [Val []],
                           ctx_touched = [Val False], ctx_blurred = [Val False]\<rparr> 0
              \<lparr>answer = ''x'', localOptions = [], hint = None\<rparr>))
   \<and> length (ctx_blanksData \<lparr>ctx_blanksData = blanksData (Str ''|a|[x]|\<newline>|-|-|''), ctx_inputs = [Val []],
                               ctx_touched = [Val False], ctx_blurred = [Val False]\<rparr>) \<le> 1
   \<and> InlineMarkdownBlank \<lparr>ctx_blanksData = blanksData (Str ''|a|[x]|\<newline>|-|-|''), ctx_inputs = [Val []],
                           ctx_touched = [Val False], ctx_blurred = [Val False]\<rparr> (show_nat 1)
       = None"
proof -
  let ?ctx = "\<lparr>ctx_blanksData = blanksData (Str ''|a|[x]|\<newline>|-|-|''), ctx_inputs = [Val []],
               ctx_touched = [Val False], ctx_blurred = [Val False]\<rparr>"
  have len: "length (ctx_blanksData ?ctx) = 1" by (simp add: table_x_blanks)
  have b0: "ctx_blanksData ?ctx ! 0 = \<lparr>answer = ''x'', localOptions = [], hint = None\<rparr>"
    by (simp add: table_x_blanks)
  have y: "parse_text (rawText (Str ''  |a|[x]|\<newline>  |-|-|'')) = [\<lparr>answer = ''x'', localOptions = [], hint = None\<rparr>]"
    using table_y_closed table_y_blanks C10_placeholders_indexed [of "Str ''  |a|[x]|\<newline>  |-|-|''" 0 ?ctx]
    by simp
  have x: "parse_text (rawText (Str ''|a|[x]|\<newline>|-|-|'')) = [\<lparr>answer = ''x'', localOptions = [], hint = None\<rparr>]"
    using table_x_raw table_x_blanks C10_placeholders_indexed [of "Str ''|a|[x]|\<newline>|-|-|''" 0 ?ctx]
    by simp
  show ?thesis
    using table_x_raw table_y_closed table_y_raw len b0 x y
      C10_placeholders_indexed [of "Str ''|a|[x]|\<newline>|-|-|''" 0 ?ctx]
      C10_placeholders_indexed [of "Str ''|a|[x]|\<newline>|-|-|''" 1 ?ctx]
    by simp
qed

text \<open>
  C10 as stated fails when dedenting turns a literal segment into one that passes the
  bracket test: the three lines \<open> [\<close>, \<open> |-|\<close>, \<open> ]\<close> are a table, the parser finds no blank
  in the text, and the markup made from the dedented text is one placeholder.
\<close>

theorem C10_count_counterexample:
  "isTable (Str '' [\<newline> |-|\<newline> ]'')
   \<and> blanksData (Str '' [\<newline> |-|\<newline> ]'') = []
   \<and> processedMarkdown (Str '' [\<newline> |-|\<newline> ]'') = placeholder 0
   \<and> length (filter is_blank_token (split_blanks (rawText (Str '' [\<newline> |-|\<newline> ]'')))) = 1"
  by code_simp


section \<open>Completion is notified once\<close>

lemma unmounted_inv: "notified_inv unmounted"
  by (simp add: notified_inv_def unmounted_def)

lemma unmounted_waiting: "waiting_inv unmounted"
  by (simp add: waiting_inv_def unmounted_def)

lemma mounted_commit: "mounted (commit st r)"
  by (simp add: commit_def Let_def)

lemma commit_inv:
  "notified_inv st \<Longrightarrow>
   (if runs_identifier_effect st r \<and> calls st \<noteq> [] then r_isExerciseComplete r else True) \<Longrightarrow>
   notified_inv (commit st r)"
  by (auto simp: notified_inv_def commit_def runs_identifier_effect_def Let_def split: if_splits)

lemma foldl_commit_inv:
  "notified_inv st \<Longrightarrow> store_keeps_calls st rs \<Longrightarrow> notified_inv (foldl commit st rs)"
  by (induction rs arbitrary: st) (simp_all add: commit_inv)

lemma commit_waiting:
  "waiting_inv st \<Longrightarrow>
   (if runs_identifier_effect st r
    then (if calls st = [] then r_exerciseId r \<noteq> [] \<and> \<not> r_isExerciseComplete r
          else r_isExerciseComplete r)
    else True) \<Longrightarrow>
   waiting_inv (commit st r) \<and> (r_allCorrect r \<longrightarrow> calls (commit st r) \<noteq> [])
     \<and> (calls st \<noteq> [] \<longrightarrow> calls (commit st r) \<noteq> [])"
  by (auto simp: waiting_inv_def commit_def runs_identifier_effect_def Let_def split: if_splits)

lemma foldl_commit_waiting:
  "waiting_inv st \<Longrightarrow> store_mirrors_calls st rs \<Longrightarrow>
     waiting_inv (foldl commit st rs)
     \<and> ((calls st \<noteq> [] \<or> (\<exists>r\<in>set rs. r_allCorrect r)) \<longrightarrow> calls (foldl commit st rs) \<noteq> [])"
proof (induction rs arbitrary: st)
  case Nil
  then show ?case by simp
next
  case (Cons r rs)
  have a: "waiting_inv (commit st r)" "r_allCorrect r \<longrightarrow> calls (commit st r) \<noteq> []"
    "calls st \<noteq> [] \<longrightarrow> calls (commit st r) \<noteq> []"
    using commit_waiting [of st r] Cons.prems by simp_all
  have b: "store_mirrors_calls (commit st r) rs" using Cons.prems by simp
  show ?case using Cons.IH [OF a(1) b] a(2,3) by auto
qed

lemma store_mirrors_keeps: "store_mirrors_calls st rs \<Longrightarrow> store_keeps_calls st rs"
  by (induction rs arbitrary: st) (auto split: if_splits)

lemma fixed_deps_keep_calls:
  "mounted st \<Longrightarrow> \<forall>r\<in>set rs. \<not> r_idDepsChanged r \<Longrightarrow> store_keeps_calls st rs"
  by (induction rs arbitrary: st) (simp_all add: runs_identifier_effect_def mounted_commit)

lemma fixed_deps_mirror_calls:
  "mounted st \<Longrightarrow> \<forall>r\<in>set rs. \<not> r_idDepsChanged r \<Longrightarrow> store_mirrors_calls st rs"
  by (induction rs arbitrary: st) (simp_all add: runs_identifier_effect_def mounted_commit)

lemma mount_only_keeps_calls:
  "\<forall>r\<in>set rs. \<not> r_idDepsChanged r \<Longrightarrow> store_keeps_calls unmounted (r0 # rs)"
  using fixed_deps_keep_calls [of "commit unmounted r0" rs]
  by (simp add: mounted_commit unmounted_def)

lemma mount_only_mirrors_calls:
  "\<forall>r\<in>set rs. \<not> r_idDepsChanged r \<Longrightarrow> \<not> r_isExerciseComplete r0 \<Longrightarrow> r_exerciseId r0 \<noteq> [] \<Longrightarrow>
   store_mirrors_calls unmounted (r0 # rs)"
  using fixed_deps_mirror_calls [of "commit unmounted r0" rs]
  by (simp add: mounted_commit unmounted_def)

text \<open>
  The mount in which the identifier effect runs only at mount (the pathname, the children
  and \<open>isExerciseComplete\<close> stay the same) is a special case of both conditions.
\<close>

lemma completion_once_mount_only:
  assumes "\<forall>r\<in>set rs. \<not> r_idDepsChanged r"
  shows "length (calls (run_renders (r0 # rs))) \<le> 1
         \<and> (calls (run_renders (r0 # rs)) \<noteq> [] \<longrightarrow> isCompleted (run_renders (r0 # rs)))
         \<and> (\<not> r_isExerciseComplete r0 \<and> r_exerciseId r0 \<noteq> [] \<and> (\<exists>r\<in>set (r0 # rs). r_allCorrect r)
              \<longrightarrow> length (calls (run_renders (r0 # rs))) = 1)"
proof -
  have inv: "notified_inv (run_renders (r0 # rs))"
    using foldl_commit_inv [OF unmounted_inv mount_only_keeps_calls [OF assms, of r0]]
    by (simp add: run_renders_def)
  have once: "\<not> r_isExerciseComplete r0 \<and> r_exerciseId r0 \<noteq> [] \<and> (\<exists>r\<in>set (r0 # rs). r_allCorrect r)
              \<longrightarrow> length (calls (run_renders (r0 # rs))) = 1"
  proof
    assume h: "\<not> r_isExerciseComplete r0 \<and> r_exerciseId r0 \<noteq> [] \<and> (\<exists>r\<in>set (r0 # rs). r_allCorrect r)"
    then have m: "store_mirrors_calls unmounted (r0 # rs)"
      using mount_only_mirrors_calls [OF assms] by blast
    have "calls (run_renders (r0 # rs)) \<noteq> []"
      using foldl_commit_waiting [OF unmounted_waiting m] h by (simp add: run_renders_def)
    then show "length (calls (run_renders (r0 # rs))) = 1"
      using inv by (cases "calls (run_renders (r0 # rs))") (auto simp: notified_inv_def)
  qed
  show ?thesis using inv once by (simp add: notified_inv_def)
qed

text \<open>
  C2, as the code has it. In a mount where the store answers true whenever the identifier
  effect runs again after a call (in particular where that effect runs only at mount),
  \<open>markExerciseComplete\<close> is called at most once, whatever \<open>allCorrect\<close> does, and after a
  call \<open>isCompleted\<close> is true. It is called exactly once when moreover, as long as there
  was no call, every run of the identifier effect resolves a non-empty identifier and finds
  the exercise not complete in the store, and \<open>allCorrect\<close> is true in some render.
\<close>

theorem C2_completion_once:
  assumes "store_keeps_calls unmounted rs"
  shows "length (calls (run_renders rs)) \<le> 1
         \<and> (calls (run_renders rs) \<noteq> [] \<longrightarrow> isCompleted (run_renders rs))
         \<and> (store_mirrors_calls unmounted rs \<and> (\<exists>r\<in>set rs. r_allCorrect r)
              \<longrightarrow> length (calls (run_renders rs)) = 1)"
proof -
  have inv: "notified_inv (run_renders rs)"
    using foldl_commit_inv [OF unmounted_inv assms] by (simp add: run_renders_def)
  have once: "store_mirrors_calls unmounted rs \<and> (\<exists>r\<in>set rs. r_allCorrect r)
              \<longrightarrow> length (calls (run_renders rs)) = 1"
  proof
    assume h: "store_mirrors_calls unmounted rs \<and> (\<exists>r\<in>set rs. r_allCorrect r)"
    then have "calls (run_renders rs) \<noteq> []"
      using foldl_commit_waiting [OF unmounted_waiting, of rs] by (simp add: run_renders_def)
    then show "length (calls (run_renders rs)) = 1"
      using inv by (cases "calls (run_renders rs)") (auto simp: notified_inv_def)
  qed
  show ?thesis using inv once by (simp add: notified_inv_def)
qed

lemmas bridge_eval = run_renders_def commit_def unmounted_def lesson_render_def
  runs_identifier_effect_def Let_def

theorem C2_completion_once_witness:
  "store_keeps_calls unmounted [lesson_render False True False, lesson_render True False False,
        lesson_render True True True, lesson_render False True True, lesson_render True False True]
   \<and> store_mirrors_calls unmounted [lesson_render False True False, lesson_render True False False,
        lesson_render True True True, lesson_render False True True, lesson_render True False True]
   \<and> r_allCorrect (lesson_render True False False)
   \<and> length (calls (run_renders [lesson_render False True False, lesson_render True False False,
        lesson_render True True True, lesson_render False True True, lesson_render True False True])) = 1
   \<and> isCompleted (run_renders [lesson_render False True False, lesson_render True False False,
        lesson_render True True True, lesson_render False True True, lesson_render True False True])"
proof -
  have m: "store_mirrors_calls unmounted [lesson_render False True False,
        lesson_render True False False, lesson_render True True True,
        lesson_render False True True, lesson_render True False True]"
    by (simp add: bridge_eval)
  have h: "store_keeps_calls unmounted [lesson_render False True False,
        lesson_render True False False, lesson_render True True True,
        lesson_render False True True, lesson_render True False True]"
    using m by (rule store_mirrors_keeps)
  have a: "r_allCorrect (lesson_render True False False)"
    by (simp add: lesson_render_def)
  show ?thesis
    using h m a C2_completion_once [OF h] by auto
qed

text \<open>
  C2 as stated fails twice. When the store reports the exercise complete at mount, the
  flag starts true and the callback is not called when \<open>allCorrect\<close> becomes true. And the
  flag is read again from the store whenever the identifier effect runs again: when
  \<open>isExerciseComplete\<close> changes and answers false after the first call, the next render
  calls the callback a second time.
\<close>

theorem C2_once_counterexample:
  "calls (run_renders [lesson_render False True True, lesson_render True False True]) = []
   \<and> calls (run_renders [lesson_render False True False, lesson_render True False False,
        lesson_render True False False, lesson_render True True False,
        lesson_render True False False])
       = [(''ex1'', ''/lesson''), (''ex1'', ''/lesson'')]"
  by (simp add: run_renders_def commit_def unmounted_def lesson_render_def Let_def)

end
